theory Spec2Isabelle
  imports
    Main
    "HOL-Library.Char_ord"
    "HOL-Library.List_Lexorder"
    "HOL-Library.Multiset"
    "HOL-Library.Signed_Division"
begin

section \<open>Strings and the Go library functions the program calls\<close>

text \<open>
  A Go string is a sequence of bytes and \<open>len\<close> counts bytes, so a Go string is a
  \<^typ>\<open>string\<close> here (a list of 8-bit characters). The functions of this section are
  those of the Go standard library that \<open>parseVersion\<close>, \<open>NormalizePath\<close> and
  \<open>normalizeInstallLocation\<close> call, restricted to the way the program calls them
  (one-byte separators).
\<close>

text \<open>\<open>strings.Split(s, ".")\<close>: the pieces between the dots; never empty.\<close>

fun Split :: "string \<Rightarrow> string list" where
  "Split [] = [[]]"
| "Split (c # cs) =
     (if c = CHR ''.'' then [] # Split cs
      else (case Split cs of
              [] \<Rightarrow> [[c]]
            | p # ps \<Rightarrow> (c # p) # ps))"

text \<open>\<open>strings.Join(parts, ".")\<close>.\<close>

fun Join :: "string list \<Rightarrow> string" where
  "Join [] = []"
| "Join [p] = p"
| "Join (p # q # ps) = p @ CHR ''.'' # Join (q # ps)"

text \<open>
  \<open>strings.ReplaceAll(s, old, new)\<close> for one-byte \<open>old\<close> and \<open>new\<close>, the only
  way the program calls it.
\<close>

definition ReplaceAll :: "string \<Rightarrow> char \<Rightarrow> char \<Rightarrow> string" where
  "ReplaceAll s old new = map (\<lambda>c. if c = old then new else c) s"

text \<open>\<open>strings.HasSuffix(s, suffix)\<close> and \<open>strings.HasPrefix(s, prefix)\<close>.\<close>

definition HasSuffix :: "string \<Rightarrow> string \<Rightarrow> bool" where
  "HasSuffix s suffix =
     (length suffix \<le> length s \<and> drop (length s - length suffix) s = suffix)"

definition HasPrefix :: "string \<Rightarrow> string \<Rightarrow> bool" where
  "HasPrefix s prefix = (take (length prefix) s = prefix)"

text \<open>\<open>strings.TrimRight(s, cutset)\<close> for a one-byte cutset: drops every trailing \<open>c\<close>.\<close>

definition TrimRight :: "string \<Rightarrow> char \<Rightarrow> string" where
  "TrimRight s c = rev (dropWhile (\<lambda>x. x = c) (rev s))"

subsection \<open>\<open>strconv.Atoi\<close>\<close>

text \<open>
  \<open>strconv.Atoi\<close> returns either the value or a \<open>*strconv.NumError\<close> holding the text
  it was given (\<open>Num\<close>) and one of the two causes \<open>ErrSyntax\<close> and \<open>ErrRange\<close>.
  \<open>int\<close> is 64 bits wide on the platforms the tool is built for.
\<close>

datatype num_cause = ErrSyntax | ErrRange

datatype NumError = NumError (Num: string) (Err: num_cause)

definition isDigit :: "char \<Rightarrow> bool" where
  "isDigit c = (CHR ''0'' \<le> c \<and> c \<le> CHR ''9'')"

definition digitVal :: "char \<Rightarrow> nat" where
  "digitVal c = of_char c - of_char CHR ''0''"

text \<open>
  The digit loop of \<open>strconv.ParseUint(s, 10, 64)\<close>: the first byte that is not a
  decimal digit is a syntax error, the first step that leaves 64 bits is a range error.
\<close>

fun ParseUint_loop :: "nat \<Rightarrow> string \<Rightarrow> num_cause + nat" where
  "ParseUint_loop n [] = Inr n"
| "ParseUint_loop n (c # cs) =
     (if \<not> isDigit c then Inl ErrSyntax
      else if 2 ^ 64 \<le> n * 10 + digitVal c then Inl ErrRange
      else ParseUint_loop (n * 10 + digitVal c) cs)"

definition ParseUint :: "string \<Rightarrow> num_cause + nat" where
  "ParseUint s = (if s = [] then Inl ErrSyntax else ParseUint_loop 0 s)"

text \<open>
  \<open>strconv.ParseInt(s, 10, 0)\<close>: an optional sign, then \<open>ParseUint\<close>; a magnitude
  that does not fit a signed 64-bit integer is a range error.
\<close>

definition ParseInt :: "string \<Rightarrow> num_cause + int" where
  "ParseInt s =
     (case s of
        [] \<Rightarrow> Inl ErrSyntax
      | c # cs \<Rightarrow>
          (let neg = (c = CHR ''-'');
               body = (if c = CHR ''+'' \<or> c = CHR ''-'' then cs else s)
           in case ParseUint body of
                Inl ErrSyntax \<Rightarrow> Inl ErrSyntax
              | Inl ErrRange \<Rightarrow> Inl ErrRange
              | Inr un \<Rightarrow>
                  if \<not> neg \<and> 2 ^ 63 \<le> un then Inl ErrRange
                  else if neg \<and> 2 ^ 63 < un then Inl ErrRange
                  else Inr (if neg then - int un else int un)))"

text \<open>
  \<open>strconv.Atoi(s)\<close>. Its fast path for short inputs accepts and rejects the same
  strings as \<open>ParseInt(s, 10, 0)\<close>, with the same values, so one definition covers both.
\<close>

definition Atoi :: "string \<Rightarrow> NumError + int" where
  "Atoi s = (case ParseInt s of Inl c \<Rightarrow> Inl (NumError s c) | Inr v \<Rightarrow> Inr v)"

text \<open>
  What \<open>Atoi\<close> accepts, said without the loop: a decimal numeral is a non-empty row of
  digits with at most one sign in front, and its value is the number the digits write.
\<close>

definition digitsValue :: "string \<Rightarrow> nat" where
  "digitsValue ds = foldl (\<lambda>n c. n * 10 + digitVal c) 0 ds"

definition signedDecimal :: "string \<Rightarrow> bool" where
  "signedDecimal s =
     (case s of
        [] \<Rightarrow> False
      | c # cs \<Rightarrow>
          if c = CHR ''+'' \<or> c = CHR ''-'' then cs \<noteq> [] \<and> list_all isDigit cs
          else list_all isDigit s)"

definition decimalValue :: "string \<Rightarrow> int" where
  "decimalValue s =
     (case s of
        [] \<Rightarrow> 0
      | c # cs \<Rightarrow>
          if c = CHR ''-'' then - int (digitsValue cs)
          else if c = CHR ''+'' then int (digitsValue cs)
          else int (digitsValue s))"

subsection \<open>Formatting\<close>

text \<open>The verb \<open>%d\<close> of \<open>fmt.Sprintf\<close> on an \<open>int\<close>.\<close>

definition digitChar :: "nat \<Rightarrow> char" where
  "digitChar d = ''0123456789'' ! d"

fun natDigits :: "nat \<Rightarrow> string" where
  "natDigits n = (if n < 10 then [digitChar n] else natDigits (n div 10) @ [digitChar (n mod 10)])"

declare natDigits.simps [simp del]

definition Itoa :: "int \<Rightarrow> string" where
  "Itoa i = (if i < 0 then CHR ''-'' # natDigits (nat (- i)) else natDigits (nat i))"

text \<open>
  Go's \<open>int\<close> arithmetic wraps around at 64 bits, and \<open>%\<close> truncates towards zero
  (the remainder has the sign of the dividend): \<^term>\<open>a smod b\<close>.
\<close>

definition wrap64 :: "int \<Rightarrow> int" where
  "wrap64 x = signed_take_bit 63 x"

section \<open>Version normalisation\<close>

datatype field = Year | Major | Minor | Build | Extra

datatype error =
    InvalidVersionPart string
      \<comment> \<open>\<open>fmt.Errorf("invalid version part: %q is not a number", part)\<close>\<close>
  | InvalidField field NumError
      \<comment> \<open>\<open>fmt.Errorf("invalid year: %v", err)\<close> and its four siblings\<close>
  | InvalidVersionFormat string
      \<comment> \<open>\<open>fmt.Errorf("invalid version format: %s", versionStr)\<close>\<close>

subsection \<open>The pass-through variant (\<open>main.go\<close>, and both programs of \<open>part_000\<close>)\<close>

text \<open>The loop over the parts: the first part \<open>Atoi\<close> rejects ends it.\<close>

fun numericParts :: "string list \<Rightarrow> error + string list" where
  "numericParts [] = Inr []"
| "numericParts (part # parts) =
     (case Atoi part of
        Inl e \<Rightarrow> Inl (InvalidVersionPart part)
      | Inr v \<Rightarrow>
          (case numericParts parts of
             Inl e \<Rightarrow> Inl e
           | Inr ps \<Rightarrow> Inr (part # ps)))"

definition parseVersion :: "string \<Rightarrow> error + string" where
  "parseVersion versionStr =
     (case numericParts (Split versionStr) of
        Inl e \<Rightarrow> Inl e
      | Inr ps \<Rightarrow> Inr (Join ps))"

subsection \<open>The modulo variant (\<open>part_001\<close>)\<close>

definition atoiField :: "field \<Rightarrow> string \<Rightarrow> error + int" where
  "atoiField f s = (case Atoi s of Inl e \<Rightarrow> Inl (InvalidField f e) | Inr v \<Rightarrow> Inr v)"

definition bindE :: "error + 'a \<Rightarrow> ('a \<Rightarrow> error + 'b) \<Rightarrow> error + 'b" where
  "bindE r k = (case r of Inl e \<Rightarrow> Inl e | Inr v \<Rightarrow> k v)"

text \<open>The last lines of the function: the two reductions and the \<open>Sprintf\<close>.\<close>

definition finishVersion :: "int \<Rightarrow> int \<Rightarrow> int \<Rightarrow> string" where
  "finishVersion major minor build =
     Itoa major @ CHR ''.'' # Itoa (minor smod 256) @ CHR ''.'' # Itoa (build smod 65536)"

definition parseVersion_modulo :: "string \<Rightarrow> error + string" where
  "parseVersion_modulo versionStr =
     (case Split versionStr of
        [p0, p1, p2] \<Rightarrow>
          bindE (if length p0 = 4 then atoiField Year (drop 2 p0) else atoiField Major p0)
            (\<lambda>major. bindE (atoiField Minor p1)
              (\<lambda>minor. bindE (atoiField Build p2)
                (\<lambda>build. Inr (finishVersion major minor build))))
      | [p0, p1, p2, p3] \<Rightarrow>
          bindE (atoiField Major p0)
            (\<lambda>major. bindE (atoiField Minor p1)
              (\<lambda>minor. bindE (atoiField Build p2)
                (\<lambda>build. bindE (atoiField Extra p3)
                  (\<lambda>extra. Inr (finishVersion major minor
                                   (wrap64 (wrap64 (build * 1000) + extra)))))))
      | _ \<Rightarrow> Inl (InvalidVersionFormat versionStr))"

text \<open>
  The calls of \<open>Atoi\<close> in the modulo variant, in their order: the field whose name
  the error of the call carries, and the text the call is given. In an input of three
  parts whose first part is four bytes long, the first call is for the year and is given
  the last two bytes of that part.
\<close>

definition atoiCalls :: "string list \<Rightarrow> (field \<times> string) list" where
  "atoiCalls parts =
     (case parts of
        [p0, p1, p2] \<Rightarrow>
          [if length p0 = 4 then (Year, drop 2 p0) else (Major, p0), (Minor, p1), (Build, p2)]
      | [p0, p1, p2, p3] \<Rightarrow> [(Major, p0), (Minor, p1), (Build, p2), (Extra, p3)]
      | _ \<Rightarrow> [])"

text \<open>A text that \<open>Atoi\<close> rejects.\<close>

definition rejected :: "string \<Rightarrow> bool" where
  "rejected s = isl (Atoi s)"

subsection \<open>The text of the errors\<close>

text \<open>
  \<open>strconv.Quote\<close>, which the verb \<open>%q\<close> and \<open>NumError.Error\<close> both use, on a
  string of ASCII bytes: a double quote and a backslash get a backslash in front, the
  other printable bytes stand for themselves, the control bytes are escaped. The rendering
  of a byte from \<open>0x80\<close> on depends on the UTF-8 decoding and on Unicode's table of
  printable runes; such a string is outside this definition, which answers \<open>None\<close>.
\<close>

definition hexDigit :: "nat \<Rightarrow> char" where
  "hexDigit d = ''0123456789abcdef'' ! d"

definition quoteByte :: "char \<Rightarrow> string" where
  "quoteByte c =
     (if c = CHR 0x22 \<or> c = CHR 0x5C then [CHR 0x5C, c]
      else if CHR 0x20 \<le> c \<and> c \<le> CHR 0x7E then [c]
      else if c = CHR 0x07 then [CHR 0x5C, CHR ''a'']
      else if c = CHR 0x08 then [CHR 0x5C, CHR ''b'']
      else if c = CHR 0x0C then [CHR 0x5C, CHR ''f'']
      else if c = CHR 0x0A then [CHR 0x5C, CHR ''n'']
      else if c = CHR 0x0D then [CHR 0x5C, CHR ''r'']
      else if c = CHR 0x09 then [CHR 0x5C, CHR ''t'']
      else if c = CHR 0x0B then [CHR 0x5C, CHR ''v'']
      else [CHR 0x5C, CHR ''x'', hexDigit (of_char c div 16), hexDigit (of_char c mod 16)])"

definition Quote :: "string \<Rightarrow> string option" where
  "Quote s =
     (if list_all (\<lambda>c. c < CHR 0x80) s
      then Some (CHR 0x22 # concat (map quoteByte s) @ [CHR 0x22])
      else None)"

text \<open>A text of printable ASCII bytes with no double quote and no backslash.\<close>

definition plain :: "string \<Rightarrow> bool" where
  "plain s = list_all (\<lambda>c. CHR 0x20 \<le> c \<and> c \<le> CHR 0x7E \<and> c \<noteq> CHR 0x22 \<and> c \<noteq> CHR 0x5C) s"

text \<open>\<open>(*NumError).Error\<close>, with \<open>Func\<close> set to \<open>Atoi\<close>.\<close>

definition causeText :: "num_cause \<Rightarrow> string" where
  "causeText c = (case c of ErrSyntax \<Rightarrow> ''invalid syntax'' | ErrRange \<Rightarrow> ''value out of range'')"

definition NumError_Error :: "NumError \<Rightarrow> string option" where
  "NumError_Error e =
     map_option (\<lambda>q. ''strconv.Atoi: parsing '' @ q @ '': '' @ causeText (Err e)) (Quote (Num e))"

definition fieldText :: "field \<Rightarrow> string" where
  "fieldText f =
     (case f of
        Year \<Rightarrow> ''invalid year: ''
      | Major \<Rightarrow> ''invalid major version: ''
      | Minor \<Rightarrow> ''invalid minor version: ''
      | Build \<Rightarrow> ''invalid build version: ''
      | Extra \<Rightarrow> ''invalid extra build number: '')"

text \<open>The message of each error, as the format strings of the two functions build it.\<close>

fun errorMessage :: "error \<Rightarrow> string option" where
  "errorMessage (InvalidVersionPart part) =
     map_option (\<lambda>q. ''invalid version part: '' @ q @ '' is not a number'') (Quote part)"
| "errorMessage (InvalidField f e) = map_option (\<lambda>m. fieldText f @ m) (NumError_Error e)"
| "errorMessage (InvalidVersionFormat versionStr) = Some (''invalid version format: '' @ versionStr)"

section \<open>Install locations\<close>

text \<open>
  The tool builds Windows packages: \<open>os.PathSeparator\<close> is the backslash, and
  \<open>filepath.FromSlash\<close> turns every slash into it.
\<close>

definition backslash :: char where
  "backslash = CHR 0x5C"

definition FromSlash :: "string \<Rightarrow> string" where
  "FromSlash s = ReplaceAll s CHR ''/'' backslash"

definition NormalizePath :: "string \<Rightarrow> string" where
  "NormalizePath input = FromSlash (ReplaceAll input backslash CHR ''/'')"

text \<open>
  \<open>resolveInstallLocation\<close> (\<open>part_000\<close>). A Go map is a partial function; the
  two-result lookup \<open>dirs[normalized]\<close> is its application. The two \<open>log.Printf\<close>
  calls leave the result alone.
\<close>

definition resolveInstallLocation :: "string \<Rightarrow> (string \<rightharpoonup> string) \<Rightarrow> string" where
  "resolveInstallLocation installLocation dirs =
     (let normalized = NormalizePath installLocation
      in case dirs normalized of
           Some identifier \<Rightarrow> identifier
         | None \<Rightarrow> normalized)"

text \<open>
  \<open>getStandardDirectories\<close>. The entries of the map literal in the order of the
  source; \<open>join\<close> stands for \<open>filepath.Join\<close>. The entries are stored one after
  the other, so where two keys are the same text the entry stored last stays. The
  definition stores them in the order of the source (\<^const>\<open>map_of\<close> answers with the
  first pair of a list, hence the \<^const>\<open>rev\<close>); a compiler may store the entries
  with the computed keys after the others, and what is proved of the table below holds
  for every order. A failing \<open>os.UserHomeDir\<close> ends the program in \<open>log.Fatalf\<close>:
  \<open>Inl\<close>.
\<close>

definition standardEntries :: "(string list \<Rightarrow> string) \<Rightarrow> string \<Rightarrow> (string \<times> string) list" where
  "standardEntries join homeDir =
     [(''C:'' @ [backslash] @ ''Program Files'', ''ProgramFilesFolder''),
      (''C:'' @ [backslash] @ ''Program Files (x86)'', ''ProgramFiles6432Folder''),
      (''C:'' @ [backslash] @ ''Program Files'' @ [backslash] @ ''Common Files'', ''CommonFilesFolder''),
      (''C:'' @ [backslash] @ ''Program Files'' @ [backslash] @ ''Common Files (x86)'',
         ''CommonFiles6432Folder''),
      (''C:'' @ [backslash] @ ''ProgramData'', ''CommonAppDataFolder''),
      (''C:'' @ [backslash] @ ''Windows'', ''WindowsFolder''),
      (''C:'' @ [backslash] @ ''Windows'' @ [backslash] @ ''System32'', ''SystemFolder''),
      (''C:'' @ [backslash] @ ''Windows'' @ [backslash] @ ''SysWOW64'', ''System64Folder''),
      (''C:'' @ [backslash] @ ''Windows'' @ [backslash] @ ''Fonts'', ''FontsFolder''),
      (join [homeDir, ''AppData'', ''Local''], ''LocalAppDataFolder''),
      (join [homeDir, ''AppData'', ''Roaming''], ''AppDataFolder''),
      (join [homeDir, ''Desktop''], ''DesktopFolder''),
      (join [homeDir, ''Documents''], ''PersonalFolder''),
      (join [homeDir, ''Favorites''], ''FavoritesFolder''),
      (join [homeDir, ''My Pictures''], ''MyPicturesFolder''),
      (join [homeDir, ''NetHood''], ''NetHoodFolder''),
      (join [homeDir, ''PrintHood''], ''PrintHoodFolder''),
      (join [homeDir, ''Recent''], ''RecentFolder''),
      (join [homeDir, ''SendTo''], ''SendToFolder''),
      (join [homeDir, ''Start Menu''], ''StartMenuFolder''),
      (join [homeDir, ''Startup''], ''StartupFolder''),
      (''C:'' @ [backslash] @ ''Windows'' @ [backslash] @ ''System'', ''System16Folder''),
      (''C:'' @ [backslash] @ ''Windows'' @ [backslash] @ ''Temp'', ''TempFolder''),
      (''C:'' @ [backslash] @ ''Windows'' @ [backslash] @ ''System32'' @ [backslash] @ ''config''
         @ [backslash] @ ''systemprofile'' @ [backslash] @ ''AppData'' @ [backslash] @ ''Local'',
         ''LocalAppDataFolder'')]"

definition getStandardDirectories ::
  "(string list \<Rightarrow> string) \<Rightarrow> string + string \<Rightarrow> string + (string \<rightharpoonup> string)" where
  "getStandardDirectories join userHomeDir =
     (case userHomeDir of
        Inl err \<Rightarrow> Inl (''Failed to get user's home directory: '' @ err)
      | Inr homeDir \<Rightarrow> Inr (map_of (rev (standardEntries join homeDir))))"

text \<open>
  The elements with a backslash between them. On Windows \<open>filepath.Join\<close> returns
  this when what it joins is clean (a home directory such as \<open>C:\Users\me\<close>: no
  separator at its end, no empty, \<open>.\<close> or \<open>..\<close> element); otherwise it cleans the
  result further. So \<open>joinClean\<close> stands for \<open>filepath.Join\<close> only where the two
  are said to agree.
\<close>

fun joinClean :: "string list \<Rightarrow> string" where
  "joinClean [] = []"
| "joinClean [e] = e"
| "joinClean (e # f # es) = e @ backslash # joinClean (f # es)"

text \<open>The elements that the table of \<open>getStandardDirectories\<close> joins to the home directory.\<close>

definition userDirs :: "string list list" where
  "userDirs =
     [[''AppData'', ''Local''], [''AppData'', ''Roaming''], [''Desktop''], [''Documents''],
      [''Favorites''], [''My Pictures''], [''NetHood''], [''PrintHood''], [''Recent''],
      [''SendTo''], [''Start Menu''], [''Startup'']]"

text \<open>\<open>normalizeInstallLocation\<close> of \<open>main.go\<close>: a backslash is added where none ends the path.\<close>

definition normalizeInstallLocation :: "string \<Rightarrow> string" where
  "normalizeInstallLocation path =
     (let path1 = ReplaceAll path CHR ''/'' backslash
      in if \<not> HasSuffix path1 [backslash] then path1 @ [backslash] else path1)"

text \<open>\<open>normalizeInstallLocation\<close> of \<open>part_000\<close>: every trailing backslash is removed.\<close>

definition normalizeInstallLocation_trim :: "string \<Rightarrow> string" where
  "normalizeInstallLocation_trim path =
     (let path1 = ReplaceAll path CHR ''/'' backslash
      in TrimRight path1 backslash)"

text \<open>The number of backslashes a path ends in.\<close>

definition trailingBackslashes :: "string \<Rightarrow> nat" where
  "trailingBackslashes s = length (takeWhile (\<lambda>c. c = backslash) (rev s))"

section \<open>Preinstall scripts (\<open>main.go\<close>)\<close>

text \<open>
  The two functions read and write the project directory. The model passes them what
  each call of package \<open>os\<close> answers, and the file they write is a field of the state
  that \<open>includePreinstallScripts\<close> returns.
\<close>

datatype io_error = IOError string

record DirEntry =
  Name :: string
  IsRegular :: bool

record project =
  scriptsNotExist :: bool
    \<comment> \<open>\<open>os.IsNotExist\<close> of the error of \<open>os.Stat(scriptsDir)\<close>\<close>
  readDirScripts :: "io_error + DirEntry list"
    \<comment> \<open>\<open>os.ReadDir(scriptsDir)\<close>\<close>
  readScript :: "string \<Rightarrow> io_error + string"
    \<comment> \<open>\<open>os.ReadFile\<close> of \<open>scripts/<name>\<close>\<close>
  mkdirTools :: "io_error option"
    \<comment> \<open>the error of \<open>os.MkdirAll\<close> on the \<open>tools\<close> directory, if any\<close>
  writeBeforeModify :: "io_error option"
    \<comment> \<open>the error of \<open>os.WriteFile\<close> on \<open>tools/chocolateyBeforeModify.ps1\<close>, if any\<close>
  beforeModify :: "string option"
    \<comment> \<open>the contents of \<open>tools/chocolateyBeforeModify.ps1\<close>, where the file exists\<close>

datatype script_error =
    ReadDirFailed io_error
  | FailedToRead string io_error
  | FailedToCreateToolsDir io_error
  | FailedToWrite io_error

text \<open>
  \<open>getPreinstallScripts\<close>; \<open>ToLower\<close> stands for \<open>strings.ToLower\<close>, and
  \<open>sort.Strings\<close> sorts by the bytes of the names, the order of \<^typ>\<open>string\<close> here.
\<close>

definition isPreinstall :: "(string \<Rightarrow> string) \<Rightarrow> DirEntry \<Rightarrow> bool" where
  "isPreinstall ToLower entry =
     (IsRegular entry \<and> HasPrefix (ToLower (Name entry)) ''preinstall''
      \<and> HasSuffix (ToLower (Name entry)) ''.ps1'')"

definition getPreinstallScripts ::
  "(string \<Rightarrow> string) \<Rightarrow> 'a project_scheme \<Rightarrow> script_error + string list" where
  "getPreinstallScripts ToLower p =
     (if scriptsNotExist p then Inr []
      else (case readDirScripts p of
              Inl err \<Rightarrow> Inl (ReadDirFailed err)
            | Inr entries \<Rightarrow> Inr (sort (map Name (filter (isPreinstall ToLower) entries)))))"

text \<open>The loop of \<open>includePreinstallScripts\<close> that reads the scripts into \<open>combined\<close>.\<close>

fun combineScripts ::
  "'a project_scheme \<Rightarrow> string \<Rightarrow> string list \<Rightarrow> script_error + string" where
  "combineScripts p combined [] = Inr combined"
| "combineScripts p combined (script # scripts) =
     (case readScript p script of
        Inl err \<Rightarrow> Inl (FailedToRead script err)
      | Inr content \<Rightarrow>
          combineScripts p
            (combined @ (''# Contents of '' @ script @ [CHR 0x0A]) @ content @ [CHR 0x0A])
            scripts)"

definition includePreinstallScripts ::
  "(string \<Rightarrow> string) \<Rightarrow> project \<Rightarrow> script_error + project" where
  "includePreinstallScripts ToLower p =
     (case getPreinstallScripts ToLower p of
        Inl err \<Rightarrow> Inl err
      | Inr preScripts \<Rightarrow>
          if length preScripts = 0 then Inr p
          else (case combineScripts p [] preScripts of
                  Inl err \<Rightarrow> Inl err
                | Inr combined \<Rightarrow>
                    (case mkdirTools p of
                       Some err \<Rightarrow> Inl (FailedToCreateToolsDir err)
                     | None \<Rightarrow>
                         (case writeBeforeModify p of
                            Some err \<Rightarrow> Inl (FailedToWrite err)
                          | None \<Rightarrow> Inr (p\<lparr>beforeModify := Some combined\<rparr>)))))"

text \<open>\<open>strings.ToLower\<close> on ASCII text: the letters \<open>A\<close> to \<open>Z\<close> become \<open>a\<close> to \<open>z\<close>.\<close>

definition lowerASCII :: "string \<Rightarrow> string" where
  "lowerASCII s =
     map (\<lambda>c. if CHR ''A'' \<le> c \<and> c \<le> CHR ''Z''
              then ''abcdefghijklmnopqrstuvwxyz'' ! (of_char c - of_char CHR ''A'')
              else c) s"

section \<open>Sample inputs\<close>

text \<open>A home directory, and the table \<open>getStandardDirectories\<close> builds for it.\<close>

definition sampleHome :: string where
  "sampleHome = ''C:'' @ [backslash] @ ''Users'' @ [backslash] @ ''me''"

definition sampleDirs :: "string \<rightharpoonup> string" where
  "sampleDirs =
     (case getStandardDirectories joinClean (Inr sampleHome) of
        Inl fatal \<Rightarrow> Map.empty
      | Inr table \<Rightarrow> table)"

text \<open>
  A project whose \<open>scripts\<close> directory holds two preinstall scripts, a postinstall
  script, a directory with the name of a preinstall script and a text file.
\<close>

definition sampleContent :: "string \<Rightarrow> string" where
  "sampleContent n = (if n = ''Preinstall1.PS1'' then ''Write-Host 1'' else ''Write-Host 2'')"

definition sampleProject :: project where
  "sampleProject =
     \<lparr>scriptsNotExist = False,
      readDirScripts = Inr [\<lparr>Name = ''preinstall2.ps1'', IsRegular = True\<rparr>,
                            \<lparr>Name = ''postinstall.ps1'', IsRegular = True\<rparr>,
                            \<lparr>Name = ''Preinstall1.PS1'', IsRegular = True\<rparr>,
                            \<lparr>Name = ''preinstall3.ps1'', IsRegular = False\<rparr>,
                            \<lparr>Name = ''preinstall.txt'', IsRegular = True\<rparr>],
      readScript = (\<lambda>n. if n = ''Preinstall1.PS1'' \<or> n = ''preinstall2.ps1''
                         then Inr (sampleContent n)
                         else Inl (IOError ''no such file'')),
      mkdirTools = None,
      writeBeforeModify = None,
      beforeModify = None\<rparr>"

section \<open>Facts about the library functions\<close>

lemmas version_eval =
  parseVersion_def parseVersion_modulo_def bindE_def atoiField_def finishVersion_def
  Itoa_def wrap64_def digitChar_def Atoi_def ParseInt_def ParseUint_def isDigit_def digitVal_def
  natDigits.simps rejected_def atoiCalls_def signed_modulo_int_def

lemmas path_eval =
  normalizeInstallLocation_def normalizeInstallLocation_trim_def NormalizePath_def FromSlash_def
  ReplaceAll_def HasSuffix_def HasPrefix_def TrimRight_def trailingBackslashes_def backslash_def

lemma Split_not_Nil: "Split s \<noteq> []"
  by (induction s) (auto split: list.splits)

lemma Join_Cons: "ps \<noteq> [] \<Longrightarrow> Join (p # ps) = p @ CHR ''.'' # Join ps"
  by (cases ps) auto

lemma Join_Split: "Join (Split s) = s"
proof (induction s)
  case Nil
  show ?case by simp
next
  case (Cons c cs)
  show ?case
  proof (cases "c = CHR ''.''")
    case True
    with Cons show ?thesis by (simp add: Join_Cons Split_not_Nil)
  next
    case False
    obtain p ps where sp: "Split cs = p # ps"
      using Split_not_Nil [of cs] by (cases "Split cs") auto
    with Cons False show ?thesis by (cases ps) auto
  qed
qed

lemma numericParts_accepts: "find rejected ps = None \<Longrightarrow> numericParts ps = Inr ps"
  by (induction ps) (auto simp: rejected_def split: sum.splits if_splits)

lemma numericParts_rejects:
  "find rejected ps = Some p \<Longrightarrow> numericParts ps = Inl (InvalidVersionPart p)"
  by (induction ps) (auto simp: rejected_def split: sum.splits if_splits)

lemma numericParts_Inr: "numericParts ps = Inr qs \<Longrightarrow> qs = ps"
  by (induction ps arbitrary: qs) (auto split: sum.splits)

lemma quoteByte_plain:
  "CHR 0x20 \<le> c \<Longrightarrow> c \<le> CHR 0x7E \<Longrightarrow> c \<noteq> CHR 0x22 \<Longrightarrow> c \<noteq> CHR 0x5C \<Longrightarrow> quoteByte c = [c]"
  by (simp add: quoteByte_def)

lemma concat_quoteByte_plain: "plain s \<Longrightarrow> concat (map quoteByte s) = s"
  by (induction s) (simp_all add: plain_def quoteByte_plain)

lemma plain_ascii: "plain s \<Longrightarrow> list_all (\<lambda>c. c < CHR 0x80) s"
proof (induction s)
  case Nil
  show ?case by simp
next
  case (Cons c cs)
  then have "c \<le> CHR 0x7E" and "plain cs" by (simp_all add: plain_def)
  moreover have "CHR 0x7E < CHR 0x80" by simp
  ultimately show ?case using Cons.IH by (simp add: less_le_trans le_less_trans)
qed

lemma Quote_plain: "plain s \<Longrightarrow> Quote s = Some (CHR 0x22 # s @ [CHR 0x22])"
  by (simp add: Quote_def plain_ascii concat_quoteByte_plain)

lemma foldl_digits_mono: "m \<le> foldl (\<lambda>n c. n * 10 + digitVal c) m ds"
proof (induction ds arbitrary: m)
  case Nil
  show ?case by simp
next
  case (Cons c cs)
  have "m \<le> m * 10 + digitVal c" by simp
  also have "\<dots> \<le> foldl (\<lambda>n c. n * 10 + digitVal c) (m * 10 + digitVal c) cs" by (rule Cons.IH)
  finally show ?case by simp
qed

lemma ParseUint_loop_digits:
  "list_all isDigit ds \<Longrightarrow> m < 2 ^ 64 \<Longrightarrow>
   ParseUint_loop m ds =
     (if foldl (\<lambda>n c. n * 10 + digitVal c) m ds < 2 ^ 64
      then Inr (foldl (\<lambda>n c. n * 10 + digitVal c) m ds) else Inl ErrRange)"
proof (induction ds arbitrary: m)
  case Nil
  then show ?case by simp
next
  case (Cons c cs)
  then have c: "isDigit c" and cs: "list_all isDigit cs" by simp_all
  show ?case
  proof (cases "2 ^ 64 \<le> m * 10 + digitVal c")
    case True
    with foldl_digits_mono [of "m * 10 + digitVal c" cs]
    have "\<not> foldl (\<lambda>n c. n * 10 + digitVal c) (m * 10 + digitVal c) cs < 2 ^ 64" by simp
    with True c show ?thesis by simp
  next
    case False
    then have "m * 10 + digitVal c < 2 ^ 64" by simp
    from Cons.IH [OF cs this] c False show ?thesis by simp
  qed
qed

lemma ParseUint_loop_not_digits: "\<not> list_all isDigit ds \<Longrightarrow> isl (ParseUint_loop m ds)"
  by (induction ds arbitrary: m) auto

lemma ParseUint_iff:
  "ParseUint ds = Inr v \<longleftrightarrow> ds \<noteq> [] \<and> list_all isDigit ds \<and> v = digitsValue ds \<and> v < 2 ^ 64"
proof (cases "list_all isDigit ds")
  case True
  then show ?thesis
    by (auto simp: ParseUint_def ParseUint_loop_digits digitsValue_def)
next
  case False
  with ParseUint_loop_not_digits [OF False, of 0] show ?thesis
    by (auto simp: ParseUint_def)
qed

lemma Atoi_iff:
  "Atoi s = Inr v \<longleftrightarrow>
     signedDecimal s \<and> v = decimalValue s \<and> - (2 ^ 63) \<le> v \<and> v < 2 ^ 63"
proof (cases s)
  case Nil
  then show ?thesis by (simp add: Atoi_def ParseInt_def signedDecimal_def)
next
  case (Cons c cs)
  consider (minus) "c = CHR ''-''" | (plus) "c = CHR ''+''" | (none) "c \<noteq> CHR ''-''" "c \<noteq> CHR ''+''"
    by blast
  then show ?thesis
  proof cases
    case minus
    show ?thesis
    proof (cases "ParseUint cs")
      case (Inl e)
      then have "\<not> (cs \<noteq> [] \<and> list_all isDigit cs \<and> digitsValue cs < 2 ^ 64)"
        using ParseUint_iff [of cs "digitsValue cs"] by auto
      moreover have "digitsValue cs < 2 ^ 64" if "- (2 ^ 63) \<le> - int (digitsValue cs)"
        using that by simp
      ultimately show ?thesis using Inl Cons minus
        by (cases e) (auto simp: Atoi_def ParseInt_def signedDecimal_def decimalValue_def)
    next
      case (Inr un)
      then have "cs \<noteq> [] \<and> list_all isDigit cs \<and> un = digitsValue cs"
        using ParseUint_iff [of cs un] by simp
      with Inr Cons minus show ?thesis
        by (auto simp: Atoi_def ParseInt_def signedDecimal_def decimalValue_def)
    qed
  next
    case plus
    show ?thesis
    proof (cases "ParseUint cs")
      case (Inl e)
      then have "\<not> (cs \<noteq> [] \<and> list_all isDigit cs \<and> digitsValue cs < 2 ^ 64)"
        using ParseUint_iff [of cs "digitsValue cs"] by auto
      moreover have "digitsValue cs < 2 ^ 64" if "int (digitsValue cs) < 2 ^ 63"
        using that by simp
      ultimately show ?thesis using Inl Cons plus
        by (cases e) (auto simp: Atoi_def ParseInt_def signedDecimal_def decimalValue_def)
    next
      case (Inr un)
      then have "cs \<noteq> [] \<and> list_all isDigit cs \<and> un = digitsValue cs"
        using ParseUint_iff [of cs un] by simp
      with Inr Cons plus show ?thesis
        by (auto simp: Atoi_def ParseInt_def signedDecimal_def decimalValue_def)
    qed
  next
    case none
    show ?thesis
    proof (cases "ParseUint s")
      case (Inl e)
      then have "\<not> (s \<noteq> [] \<and> list_all isDigit s \<and> digitsValue s < 2 ^ 64)"
        using ParseUint_iff [of s "digitsValue s"] by auto
      moreover have "digitsValue s < 2 ^ 64" if "int (digitsValue s) < 2 ^ 63"
        using that by simp
      ultimately show ?thesis using Inl Cons none
        by (cases e) (auto simp: Atoi_def ParseInt_def signedDecimal_def decimalValue_def)
    next
      case (Inr un)
      then have "s \<noteq> [] \<and> list_all isDigit s \<and> un = digitsValue s"
        using ParseUint_iff [of s un] by simp
      with Inr Cons none show ?thesis
        by (auto simp: Atoi_def ParseInt_def signedDecimal_def decimalValue_def)
    qed
  qed
qed

lemma rejected_iff:
  "rejected s \<longleftrightarrow>
     \<not> (signedDecimal s \<and> - (2 ^ 63) \<le> decimalValue s \<and> decimalValue s < 2 ^ 63)"
proof -
  have "rejected s \<longleftrightarrow> \<not> (\<exists>v. Atoi s = Inr v)"
    by (cases "Atoi s") (simp_all add: rejected_def)
  then show ?thesis by (simp add: Atoi_iff)
qed

lemma atoiField_rejected:
  "rejected t \<Longrightarrow>
   \<exists>c. Atoi t = Inl (NumError t c) \<and> atoiField f t = Inl (InvalidField f (NumError t c))"
  by (auto simp: rejected_def atoiField_def Atoi_def split: sum.splits)

lemma atoiField_accepted: "\<not> rejected t \<Longrightarrow> \<exists>v. atoiField f t = Inr v"
  by (auto simp: rejected_def atoiField_def split: sum.splits)

lemma bindE_Inl: "bindE (Inl e) k = Inl e"
  by (simp add: bindE_def)

lemma bindE_Inr: "bindE (Inr v) k = k v"
  by (simp add: bindE_def)

lemma chain3_rejects:
  assumes "find (\<lambda>(f, t). rejected t) [(f0, t0), (f1, t1), (f2, t2)] = Some (f, t)"
  shows "\<exists>c. Atoi t = Inl (NumError t c)
           \<and> bindE (atoiField f0 t0) (\<lambda>a. bindE (atoiField f1 t1)
                 (\<lambda>b. bindE (atoiField f2 t2) (\<lambda>c. Inr (k a b c))))
             = Inl (InvalidField f (NumError t c))"
proof (cases "rejected t0")
  case True
  with assms have "f = f0" "t = t0" by simp_all
  with atoiField_rejected [OF True, of f0] show ?thesis by (auto simp: bindE_Inl)
next
  case r0: False
  then obtain a where a: "atoiField f0 t0 = Inr a" using atoiField_accepted by blast
  show ?thesis
  proof (cases "rejected t1")
    case True
    with assms r0 have "f = f1" "t = t1" by simp_all
    with atoiField_rejected [OF True, of f1] a show ?thesis by (auto simp: bindE_Inl bindE_Inr)
  next
    case r1: False
    then obtain b where b: "atoiField f1 t1 = Inr b" using atoiField_accepted by blast
    from assms r0 r1 have r2: "rejected t2" and "f = f2" "t = t2" by (auto split: if_splits)
    with atoiField_rejected [OF r2, of f2] a b show ?thesis by (auto simp: bindE_Inl bindE_Inr)
  qed
qed

lemma chain4_rejects:
  assumes "find (\<lambda>(f, t). rejected t) [(f0, t0), (f1, t1), (f2, t2), (f3, t3)] = Some (f, t)"
  shows "\<exists>c. Atoi t = Inl (NumError t c)
           \<and> bindE (atoiField f0 t0) (\<lambda>a. bindE (atoiField f1 t1) (\<lambda>b. bindE (atoiField f2 t2)
                 (\<lambda>c. bindE (atoiField f3 t3) (\<lambda>d. Inr (k a b c d)))))
             = Inl (InvalidField f (NumError t c))"
proof (cases "rejected t0")
  case True
  with assms have "f = f0" "t = t0" by simp_all
  with atoiField_rejected [OF True, of f0] show ?thesis by (auto simp: bindE_Inl)
next
  case r0: False
  then obtain a where a: "atoiField f0 t0 = Inr a" using atoiField_accepted by blast
  from assms r0 have "find (\<lambda>(f, t). rejected t) [(f1, t1), (f2, t2), (f3, t3)] = Some (f, t)"
    by simp
  from chain3_rejects [OF this, of "k a"] a show ?thesis by (simp add: bindE_Inr)
qed

lemma chain3_accepts:
  assumes "find (\<lambda>(f, t). rejected t) [(f0, t0), (f1, t1), (f2, t2)] = None"
  shows "\<exists>out. bindE (atoiField f0 t0) (\<lambda>a. bindE (atoiField f1 t1)
                 (\<lambda>b. bindE (atoiField f2 t2) (\<lambda>c. Inr (k a b c)))) = Inr out"
proof -
  from assms have "\<not> rejected t0" "\<not> rejected t1" "\<not> rejected t2"
    by (auto split: if_splits)
  then obtain a b c where "atoiField f0 t0 = Inr a" "atoiField f1 t1 = Inr b" "atoiField f2 t2 = Inr c"
    using atoiField_accepted by meson
  then show ?thesis by (simp add: bindE_Inr)
qed

lemma chain4_accepts:
  assumes "find (\<lambda>(f, t). rejected t) [(f0, t0), (f1, t1), (f2, t2), (f3, t3)] = None"
  shows "\<exists>out. bindE (atoiField f0 t0) (\<lambda>a. bindE (atoiField f1 t1) (\<lambda>b. bindE (atoiField f2 t2)
                 (\<lambda>c. bindE (atoiField f3 t3) (\<lambda>d. Inr (k a b c d))))) = Inr out"
proof -
  from assms have r: "\<not> rejected t0" and
    rest: "find (\<lambda>(f, t). rejected t) [(f1, t1), (f2, t2), (f3, t3)] = None"
    by (auto split: if_splits)
  from r obtain a where a: "atoiField f0 t0 = Inr a" using atoiField_accepted by blast
  from chain3_accepts [OF rest, of "k a"] a show ?thesis by (simp add: bindE_Inr)
qed

lemma parts_three_or_four:
  assumes "length (Split s) = 3 \<or> length (Split s) = 4"
  obtains p0 p1 p2 where "Split s = [p0, p1, p2]"
    | p0 p1 p2 p3 where "Split s = [p0, p1, p2, p3]"
  using assms by (auto simp: length_Suc_conv numeral_eq_Suc)

lemma atoiCalls_three_or_four:
  "atoiCalls (Split s) \<noteq> [] \<Longrightarrow> length (Split s) = 3 \<or> length (Split s) = 4"
  by (auto simp: atoiCalls_def split: list.splits)

lemma modulo_rejects:
  assumes rej: "find (\<lambda>(f, t). rejected t) (atoiCalls (Split s)) = Some (f, t)"
  shows "\<exists>c. Atoi t = Inl (NumError t c)
           \<and> parseVersion_modulo s = Inl (InvalidField f (NumError t c))"
proof -
  from rej have "atoiCalls (Split s) \<noteq> []" by auto
  then have "length (Split s) = 3 \<or> length (Split s) = 4" by (rule atoiCalls_three_or_four)
  then show ?thesis
  proof (cases rule: parts_three_or_four)
    case (1 p0 p1 p2)
    show ?thesis
    proof (cases "length p0 = 4")
      case True
      with 1 rej have "find (\<lambda>(f, t). rejected t) [(Year, drop 2 p0), (Minor, p1), (Build, p2)] = Some (f, t)"
        by (simp add: atoiCalls_def)
      from chain3_rejects [OF this, of finishVersion] show ?thesis
        using 1 True by (simp add: parseVersion_modulo_def)
    next
      case False
      with 1 rej have "find (\<lambda>(f, t). rejected t) [(Major, p0), (Minor, p1), (Build, p2)] = Some (f, t)"
        by (simp add: atoiCalls_def)
      from chain3_rejects [OF this, of finishVersion] show ?thesis
        using 1 False by (simp add: parseVersion_modulo_def)
    qed
  next
    case (2 p0 p1 p2 p3)
    with rej have "find (\<lambda>(f, t). rejected t) [(Major, p0), (Minor, p1), (Build, p2), (Extra, p3)] = Some (f, t)"
      by (simp add: atoiCalls_def)
    from chain4_rejects [OF this] show ?thesis
      using 2 by (simp add: parseVersion_modulo_def)
  qed
qed

lemma modulo_accepts:
  assumes len: "length (Split s) = 3 \<or> length (Split s) = 4"
      and acc: "find (\<lambda>(f, t). rejected t) (atoiCalls (Split s)) = None"
  shows "\<exists>out. parseVersion_modulo s = Inr out"
  using len
proof (cases rule: parts_three_or_four)
  case (1 p0 p1 p2)
  show ?thesis
  proof (cases "length p0 = 4")
    case True
    with 1 acc have "find (\<lambda>(f, t). rejected t) [(Year, drop 2 p0), (Minor, p1), (Build, p2)] = None"
      by (simp add: atoiCalls_def)
    from chain3_accepts [OF this, of finishVersion] show ?thesis
      using 1 True by (simp add: parseVersion_modulo_def)
  next
    case False
    with 1 acc have "find (\<lambda>(f, t). rejected t) [(Major, p0), (Minor, p1), (Build, p2)] = None"
      by (simp add: atoiCalls_def)
    from chain3_accepts [OF this, of finishVersion] show ?thesis
      using 1 False by (simp add: parseVersion_modulo_def)
  qed
next
  case (2 p0 p1 p2 p3)
  with acc have "find (\<lambda>(f, t). rejected t) [(Major, p0), (Minor, p1), (Build, p2), (Extra, p3)] = None"
    by (simp add: atoiCalls_def)
  from chain4_accepts [OF this] show ?thesis
    using 2 by (simp add: parseVersion_modulo_def)
qed

lemma modulo_format_error:
  "length (Split s) \<noteq> 3 \<Longrightarrow> length (Split s) \<noteq> 4 \<Longrightarrow>
   parseVersion_modulo s = Inl (InvalidVersionFormat s)"
  by (auto simp: parseVersion_modulo_def split: list.splits)

lemma isDigit_iff: "isDigit c \<longleftrightarrow> 48 \<le> (of_char c :: nat) \<and> (of_char c :: nat) \<le> 57"
  by (simp add: isDigit_def less_eq_char_def)

lemma digitVal_le: "isDigit c \<Longrightarrow> digitVal c \<le> 9"
  by (auto simp: isDigit_iff digitVal_def)

lemma digitChar_cases:
  assumes "d < 10"
  shows "isDigit (digitChar d) \<and> digitVal (digitChar d) = d"
proof -
  from assms have "d = 0 \<or> d = 1 \<or> d = 2 \<or> d = 3 \<or> d = 4 \<or> d = 5 \<or> d = 6 \<or> d = 7 \<or> d = 8 \<or> d = 9"
    by arith
  then show ?thesis
    by (elim disjE) (simp_all add: digitChar_def isDigit_def digitVal_def)
qed

lemma ParseUint_loop_append:
  "ParseUint_loop n (xs @ ys) = (case ParseUint_loop n xs of Inl e \<Rightarrow> Inl e | Inr m \<Rightarrow> ParseUint_loop m ys)"
  by (induction xs arbitrary: n) auto

lemma natDigits_not_Nil: "natDigits n \<noteq> []"
  by (subst natDigits.simps) simp

lemma natDigits_isDigit: "list_all isDigit (natDigits n)"
proof (induction n rule: natDigits.induct)
  case (1 n)
  show ?case
  proof (cases "n < 10")
    case True
    then show ?thesis by (subst natDigits.simps) (simp add: digitChar_cases)
  next
    case False
    with 1 show ?thesis by (subst natDigits.simps) (simp add: digitChar_cases)
  qed
qed

lemma ParseUint_loop_natDigits: "n < 2 ^ 64 \<Longrightarrow> ParseUint_loop 0 (natDigits n) = Inr n"
proof (induction n rule: natDigits.induct)
  case (1 n)
  show ?case
  proof (cases "n < 10")
    case True
    with 1 show ?thesis by (subst natDigits.simps) (simp add: digitChar_cases)
  next
    case False
    from 1(2) have "n div 10 < 2 ^ 64" by simp
    with 1(1) False have ih: "ParseUint_loop 0 (natDigits (n div 10)) = Inr (n div 10)" by simp
    have d: "n mod 10 < 10" by simp
    from 1(2) have "\<not> (2 ^ 64 \<le> n div 10 * 10 + n mod 10)" by simp
    with False ih digitChar_cases [OF d] show ?thesis
      by (subst natDigits.simps) (simp add: ParseUint_loop_append)
  qed
qed

lemma isDigit_not_sign: "isDigit c \<Longrightarrow> c \<noteq> CHR ''+'' \<and> c \<noteq> CHR ''-'' \<and> c \<noteq> CHR ''.''"
  by (auto simp: isDigit_iff)

lemma ParseInt_natDigits:
  assumes "n < 2 ^ 63"
  shows "ParseInt (natDigits n) = Inr (int n)"
proof -
  obtain c cs where s: "natDigits n = c # cs"
    using natDigits_not_Nil [of n] by (cases "natDigits n") auto
  with natDigits_isDigit [of n] have "isDigit c" by simp
  then have c: "c \<noteq> CHR ''+''" "c \<noteq> CHR ''-''" using isDigit_not_sign by auto
  from assms have "n < 2 ^ 64" by simp
  from ParseUint_loop_natDigits [OF this] s have "ParseUint (c # cs) = Inr n"
    by (simp add: ParseUint_def)
  with c assms show ?thesis by (simp add: ParseInt_def s)
qed

lemma ParseInt_minus_natDigits:
  assumes "n \<le> 2 ^ 63"
  shows "ParseInt (CHR ''-'' # natDigits n) = Inr (- int n)"
proof -
  from assms have "n < 2 ^ 64" by simp
  from ParseUint_loop_natDigits [OF this] have "ParseUint (natDigits n) = Inr n"
    by (simp add: ParseUint_def natDigits_not_Nil)
  with assms show ?thesis by (simp add: ParseInt_def)
qed

lemma Atoi_Itoa:
  assumes "- (2 ^ 63) \<le> i" and "i < 2 ^ 63"
  shows "Atoi (Itoa i) = Inr i"
proof (cases "i < 0")
  case True
  with assms have "nat (- i) \<le> 2 ^ 63" by simp
  from ParseInt_minus_natDigits [OF this] True show ?thesis
    by (simp add: Atoi_def Itoa_def)
next
  case False
  with assms have "nat i < 2 ^ 63" by simp
  from ParseInt_natDigits [OF this] False show ?thesis
    by (simp add: Atoi_def Itoa_def)
qed

lemma Split_no_dot: "CHR ''.'' \<notin> set a \<Longrightarrow> Split a = [a]"
  by (induction a) auto

lemma Split_append_dot: "CHR ''.'' \<notin> set a \<Longrightarrow> Split (a @ CHR ''.'' # r) = a # Split r"
  by (induction a) auto

lemma Itoa_no_dot: "CHR ''.'' \<notin> set (Itoa i)"
proof -
  have "CHR ''.'' \<notin> set (natDigits n)" for n
    using natDigits_isDigit [of n] isDigit_not_sign by (auto simp: list_all_iff)
  then show ?thesis by (simp add: Itoa_def)
qed

lemma smod_small: "\<bar>k\<bar> < l \<Longrightarrow> k smod l = (k::int)"
  by (simp add: signed_modulo_int_def sgn_mult_abs)

lemma modulo_fixed_point:
  assumes "- (2 ^ 63) \<le> major" "major < 2 ^ 63" "length (Itoa major) \<noteq> 4"
      and "\<bar>minor\<bar> < 256" "\<bar>build\<bar> < 65536"
  shows "parseVersion_modulo (Itoa major @ CHR ''.'' # Itoa minor @ CHR ''.'' # Itoa build)
         = Inr (Itoa major @ CHR ''.'' # Itoa minor @ CHR ''.'' # Itoa build)"
proof -
  have sp: "Split (Itoa major @ CHR ''.'' # Itoa minor @ CHR ''.'' # Itoa build)
            = [Itoa major, Itoa minor, Itoa build]"
    by (simp add: Split_append_dot Split_no_dot Itoa_no_dot)
  from assms have a: "Atoi (Itoa major) = Inr major" by (intro Atoi_Itoa)
  from assms have b: "Atoi (Itoa minor) = Inr minor" by (intro Atoi_Itoa) auto
  from assms have c: "Atoi (Itoa build) = Inr build" by (intro Atoi_Itoa) auto
  from assms show ?thesis
    by (simp add: parseVersion_modulo_def sp atoiField_def a b c bindE_def finishVersion_def smod_small)
qed



lemma Atoi_two_digits:
  assumes "isDigit c" "isDigit d"
  shows "Atoi [c, d] = Inr (int (digitVal c * 10 + digitVal d))"
proof -
  from assms have "digitVal c \<le> 9" "digitVal d \<le> 9" by (simp_all add: digitVal_le)
  moreover from assms have "c \<noteq> CHR ''+''" "c \<noteq> CHR ''-''" using isDigit_not_sign by auto
  ultimately show ?thesis using assms
    by (simp add: Atoi_def ParseInt_def ParseUint_def)
qed

lemma Atoi_four_digits:
  assumes "isDigit a" "isDigit b" "isDigit c" "isDigit d"
  shows "Atoi [a, b, c, d] = Inr (int (((digitVal a * 10 + digitVal b) * 10 + digitVal c) * 10 + digitVal d))"
proof -
  from assms have "digitVal a \<le> 9" "digitVal b \<le> 9" "digitVal c \<le> 9" "digitVal d \<le> 9"
    by (simp_all add: digitVal_le)
  moreover from assms have "a \<noteq> CHR ''+''" "a \<noteq> CHR ''-''" using isDigit_not_sign by auto
  ultimately show ?thesis using assms
    by (simp add: Atoi_def ParseInt_def ParseUint_def)
qed

lemma year_last_two_digits:
  assumes "length p0 = 4" "list_all isDigit p0" "Atoi p0 = Inr year"
  shows "Atoi (drop 2 p0) = Inr (year mod 100)"
proof -
  from assms(1) obtain a b c d where p0: "p0 = [a, b, c, d]"
    by (auto simp: length_Suc_conv numeral_eq_Suc)
  with assms(2) have dig: "isDigit a" "isDigit b" "isDigit c" "isDigit d" by simp_all
  then have le: "digitVal c \<le> 9" "digitVal d \<le> 9" by (simp_all add: digitVal_le)
  from assms(3) p0 Atoi_four_digits [OF dig]
  have "year = int (((digitVal a * 10 + digitVal b) * 10 + digitVal c) * 10 + digitVal d)" by simp
  also have "\<dots> mod 100 = int (digitVal c * 10 + digitVal d)"
  proof -
    define q where "q = digitVal a * 10 + digitVal b"
    define r where "r = digitVal c * 10 + digitVal d"
    have "((digitVal a * 10 + digitVal b) * 10 + digitVal c) * 10 + digitVal d = q * 100 + r"
      by (simp add: q_def r_def)
    moreover have "r < 100" using le by (simp add: r_def)
    then have "(q * 100 + r) mod 100 = r" by simp
    ultimately have "(((digitVal a * 10 + digitVal b) * 10 + digitVal c) * 10 + digitVal d) mod 100 = r"
      by (simp only:)
    then show ?thesis unfolding r_def by (metis of_nat_mod of_nat_numeral)
  qed
  finally show ?thesis using p0 Atoi_two_digits [OF dig(3,4)] by simp
qed

lemma ReplaceAll_absent: "old \<notin> set s \<Longrightarrow> ReplaceAll s old new = s"
  by (induction s) (auto simp: ReplaceAll_def)

lemma ReplaceAll_removes: "old \<noteq> new \<Longrightarrow> old \<notin> set (ReplaceAll s old new)"
  by (auto simp: ReplaceAll_def)

lemma slash_not_backslash: "CHR ''/'' \<noteq> backslash"
  by (simp add: backslash_def)

lemma HasSuffix_single: "HasSuffix s [c] \<longleftrightarrow> s \<noteq> [] \<and> last s = c"
proof (cases s rule: rev_cases)
  case Nil
  then show ?thesis by (simp add: HasSuffix_def)
next
  case (snoc xs x)
  then show ?thesis by (auto simp: HasSuffix_def)
qed

lemma takeWhile_eq_replicate:
  "takeWhile (\<lambda>x. x = c) xs = replicate (length (takeWhile (\<lambda>x. x = c) xs)) c"
  by (induction xs) auto

lemma takeWhile_dropWhile_Nil: "takeWhile P (dropWhile P xs) = []"
  by (induction xs) auto

lemma TrimRight_decompose:
  "s = TrimRight s c @ replicate (length (takeWhile (\<lambda>x. x = c) (rev s))) c"
proof -
  have "rev s = takeWhile (\<lambda>x. x = c) (rev s) @ dropWhile (\<lambda>x. x = c) (rev s)" by simp
  then have "s = rev (dropWhile (\<lambda>x. x = c) (rev s)) @ rev (takeWhile (\<lambda>x. x = c) (rev s))"
    by (metis rev_append rev_rev_ident)
  also have "rev (takeWhile (\<lambda>x. x = c) (rev s)) = replicate (length (takeWhile (\<lambda>x. x = c) (rev s))) c"
    by (subst takeWhile_eq_replicate) simp
  finally show ?thesis by (simp add: TrimRight_def)
qed

lemma TrimRight_no_suffix: "\<not> HasSuffix (TrimRight s c) [c]"
proof -
  have "last (rev (dropWhile (\<lambda>x. x = c) (rev s))) \<noteq> c" if "dropWhile (\<lambda>x. x = c) (rev s) \<noteq> []"
    using that hd_dropWhile [OF that] by (simp add: last_rev)
  then show ?thesis by (auto simp: HasSuffix_single TrimRight_def)
qed

lemma TrimRight_idem: "TrimRight (TrimRight s c) c = TrimRight s c"
  by (simp add: TrimRight_def)

lemma set_TrimRight: "set (TrimRight s c) \<subseteq> set s"
  by (auto simp: TrimRight_def dest: set_dropWhileD)

lemma trailing_TrimRight: "trailingBackslashes (TrimRight s backslash) = 0"
  by (simp add: trailingBackslashes_def TrimRight_def takeWhile_dropWhile_Nil)

lemma trailing_zero_iff: "trailingBackslashes s = 0 \<longleftrightarrow> \<not> HasSuffix s [backslash]"
proof (cases s rule: rev_cases)
  case Nil
  then show ?thesis by (simp add: trailingBackslashes_def HasSuffix_single)
next
  case (snoc xs x)
  then show ?thesis by (simp add: trailingBackslashes_def HasSuffix_single)
qed

lemma trailing_snoc: "trailingBackslashes (s @ [backslash]) = Suc (trailingBackslashes s)"
  by (simp add: trailingBackslashes_def)

lemma normalizeInstallLocation_suffix: "HasSuffix (normalizeInstallLocation s) [backslash]"
  by (simp add: normalizeInstallLocation_def Let_def HasSuffix_single)

lemma normalizeInstallLocation_no_slash: "CHR ''/'' \<notin> set (normalizeInstallLocation s)"
  using ReplaceAll_removes [OF slash_not_backslash, of s] slash_not_backslash
  by (auto simp: normalizeInstallLocation_def Let_def)

lemma normalizeInstallLocation_trim_no_slash: "CHR ''/'' \<notin> set (normalizeInstallLocation_trim s)"
  using ReplaceAll_removes [OF slash_not_backslash, of s] set_TrimRight
  by (auto simp: normalizeInstallLocation_trim_def Let_def)

lemma normalizeInstallLocation_trailing:
  "trailingBackslashes (normalizeInstallLocation s)
     = max 1 (trailingBackslashes (ReplaceAll s CHR ''/'' backslash))"
proof (cases "HasSuffix (ReplaceAll s CHR ''/'' backslash) [backslash]")
  case True
  then have "trailingBackslashes (ReplaceAll s CHR ''/'' backslash) \<noteq> 0"
    by (simp add: trailing_zero_iff)
  with True show ?thesis by (simp add: normalizeInstallLocation_def Let_def max_def)
next
  case False
  then have "trailingBackslashes (ReplaceAll s CHR ''/'' backslash) = 0"
    by (simp add: trailing_zero_iff)
  with False show ?thesis by (simp add: normalizeInstallLocation_def Let_def trailing_snoc)
qed

lemma NormalizePath_map:
  "NormalizePath s = map (\<lambda>c. if c = CHR ''/'' \<or> c = backslash then backslash else c) s"
  by (auto simp: NormalizePath_def FromSlash_def ReplaceAll_def)

lemma NormalizePath_id: "CHR ''/'' \<notin> set s \<Longrightarrow> NormalizePath s = s"
  by (induction s) (auto simp: NormalizePath_map)

lemma map_of_only_value:
  assumes "k \<in> fst ` set xs" and "\<forall>(k', v') \<in> set xs. k' = k \<longrightarrow> v' = v"
  shows "map_of xs k = Some v"
proof -
  from assms(1) obtain w where w: "map_of xs k = Some w"
    by (metis map_of_eq_None_iff not_Some_eq)
  then have "(k, w) \<in> set xs" by (rule map_of_SomeD)
  with assms(2) have "w = v" by auto
  with w show ?thesis by simp
qed

lemma desktop_any_order:
  assumes es: "set es = set (standardEntries join homeDir)"
      and ns: "CHR ''/'' \<notin> set (join [homeDir, ''Desktop''])"
      and un: "\<forall>(k, v) \<in> set (standardEntries join homeDir).
                 k = join [homeDir, ''Desktop''] \<longrightarrow> v = ''DesktopFolder''"
  shows "resolveInstallLocation (join [homeDir, ''Desktop'']) (map_of es) = ''DesktopFolder''"
proof -
  have "join [homeDir, ''Desktop''] \<in> fst ` set es"
    by (simp add: es standardEntries_def)
  moreover from un es
  have "\<forall>(k, v) \<in> set es. k = join [homeDir, ''Desktop''] \<longrightarrow> v = ''DesktopFolder''" by simp
  ultimately have "map_of es (join [homeDir, ''Desktop'']) = Some ''DesktopFolder''"
    by (rule map_of_only_value)
  with NormalizePath_id [OF ns] show ?thesis by (simp add: resolveInstallLocation_def)
qed

lemma not_desktop:
  assumes "take 2 (rev k) \<noteq> ''po''"
  shows "k \<noteq> h @ backslash # ''Desktop''"
proof
  assume "k = h @ backslash # ''Desktop''"
  then have "rev k = ''potkseD'' @ backslash # rev h" by simp
  then have "take 2 (rev k) = ''po''" by simp
  with assms show False by simp
qed

lemma desktop_only_DesktopFolder:
  "\<forall>(k, v) \<in> set (standardEntries joinClean homeDir).
     k = joinClean [homeDir, ''Desktop''] \<longrightarrow> v = ''DesktopFolder''"
  by (simp add: standardEntries_def not_desktop backslash_def)

lemma standardEntries_joinClean:
  "\<forall>ds \<in> set userDirs. join (homeDir # ds) = joinClean (homeDir # ds) \<Longrightarrow>
   standardEntries join homeDir = standardEntries joinClean homeDir"
  by (simp add: standardEntries_def userDirs_def)

lemma desktop_joinClean:
  assumes agree: "\<forall>ds \<in> set userDirs. join (homeDir # ds) = joinClean (homeDir # ds)"
      and ns: "CHR ''/'' \<notin> set homeDir"
  shows "resolveInstallLocation (join [homeDir, ''Desktop''])
           (map_of (rev (standardEntries join homeDir))) = ''DesktopFolder''"
proof -
  from agree have j: "join [homeDir, ''Desktop''] = joinClean [homeDir, ''Desktop'']"
    by (simp add: userDirs_def)
  from ns have "CHR ''/'' \<notin> set (joinClean [homeDir, ''Desktop''])"
    by (simp add: backslash_def)
  from desktop_any_order [OF _ this desktop_only_DesktopFolder,
      of "rev (standardEntries joinClean homeDir)"]
  show ?thesis by (simp add: j standardEntries_joinClean [OF agree])
qed

lemma sampleDirs_eq: "sampleDirs = map_of (rev (standardEntries joinClean sampleHome))"
  by (simp add: sampleDirs_def getStandardDirectories_def)

lemma combineScripts_all_read:
  "\<forall>n \<in> set names. readScript p n = Inr (content n) \<Longrightarrow>
   combineScripts p combined names
     = Inr (combined @ concat (map (\<lambda>n. ''# Contents of '' @ n @ [CHR 0x0A] @ content n @ [CHR 0x0A]) names))"
  by (induction names arbitrary: combined) simp_all

section \<open>The claims about version normalisation\<close>

text \<open>
  Claim C1, as amended. Both variants fail with a part error that names the first text
  \<open>strconv.Atoi\<close> rejects, and \<open>Atoi\<close> rejects what is not a decimal numeral, with
  at most one sign in front of its digits, of a value that fits 64 bits. In the
  pass-through variant every part is handed to \<open>Atoi\<close>, and the input comes back
  unchanged when none is rejected; the error is \<open>InvalidVersionPart\<close>, and its message
  holds the part in Go's quoted form, which is the part itself between double quotes when
  the part is printable ASCII with no double quote and no backslash. The modulo variant
  fails with \<open>InvalidVersionFormat\<close> when the parts are neither three nor four.
  Otherwise it hands the parts to \<open>Atoi\<close> in their order, for the major, minor and
  build version and the extra build number, but in the year form the last two bytes of the
  first part, for the year. When \<open>Atoi\<close> rejects one of these texts, the error is the
  error \<open>Atoi\<close> gives for the first of them, under the name of its field, and its
  message quotes the text in the same way; when it rejects none, the variant succeeds.
\<close>

theorem parseVersion_names_rejected_part:
  "(find rejected (Split s) = Some part \<longrightarrow>
      parseVersion s = Inl (InvalidVersionPart part)
      \<and> (plain part \<longrightarrow> errorMessage (InvalidVersionPart part)
            = Some (''invalid version part: '' @ [CHR 0x22] @ part @ [CHR 0x22] @ '' is not a number'')))
   \<and> (find rejected (Split s) = None \<longrightarrow> parseVersion s = Inr s)
   \<and> (length (Split s) \<noteq> 3 \<and> length (Split s) \<noteq> 4 \<longrightarrow>
        parseVersion_modulo s = Inl (InvalidVersionFormat s))
   \<and> (find (\<lambda>(f, t). rejected t) (atoiCalls (Split s)) = Some (fld, arg) \<longrightarrow>
      (\<exists>c. Atoi arg = Inl (NumError arg c)
        \<and> parseVersion_modulo s = Inl (InvalidField fld (NumError arg c))
        \<and> (plain arg \<longrightarrow> errorMessage (InvalidField fld (NumError arg c))
              = Some (fieldText fld @ ''strconv.Atoi: parsing '' @ [CHR 0x22] @ arg @ [CHR 0x22]
                      @ '': '' @ causeText c))))
   \<and> ((length (Split s) = 3 \<or> length (Split s) = 4)
        \<and> find (\<lambda>(f, t). rejected t) (atoiCalls (Split s)) = None \<longrightarrow>
      (\<exists>out. parseVersion_modulo s = Inr out))
   \<and> (rejected t \<longleftrightarrow>
        \<not> (signedDecimal t \<and> - (2 ^ 63) \<le> decimalValue t \<and> decimalValue t < 2 ^ 63))"
proof -
  have "parseVersion s = Inl (InvalidVersionPart part)" if "find rejected (Split s) = Some part"
    using numericParts_rejects [OF that] by (simp add: parseVersion_def)
  moreover have "errorMessage (InvalidVersionPart part)
      = Some (''invalid version part: '' @ [CHR 0x22] @ part @ [CHR 0x22] @ '' is not a number'')"
    if "plain part"
    using Quote_plain [OF that] by simp
  moreover have "parseVersion s = Inr s" if "find rejected (Split s) = None"
    using numericParts_accepts [OF that] by (simp add: parseVersion_def Join_Split)
  moreover have "\<exists>c. Atoi arg = Inl (NumError arg c)
        \<and> parseVersion_modulo s = Inl (InvalidField fld (NumError arg c))
        \<and> (plain arg \<longrightarrow> errorMessage (InvalidField fld (NumError arg c))
              = Some (fieldText fld @ ''strconv.Atoi: parsing '' @ [CHR 0x22] @ arg @ [CHR 0x22]
                      @ '': '' @ causeText c))"
    if rej: "find (\<lambda>(f, t). rejected t) (atoiCalls (Split s)) = Some (fld, arg)"
  proof -
    from modulo_rejects [OF rej] obtain c
      where "Atoi arg = Inl (NumError arg c)"
        and "parseVersion_modulo s = Inl (InvalidField fld (NumError arg c))" by blast
    moreover have "errorMessage (InvalidField fld (NumError arg c))
              = Some (fieldText fld @ ''strconv.Atoi: parsing '' @ [CHR 0x22] @ arg @ [CHR 0x22]
                      @ '': '' @ causeText c)" if "plain arg"
      using Quote_plain [OF that] by (simp add: NumError_Error_def)
    ultimately show ?thesis by blast
  qed
  ultimately show ?thesis
    using rejected_iff [of t] modulo_accepts [of s] modulo_format_error [of s] by blast
qed

text \<open>
  The input \<open>1.a.3\<close>: both variants fail, and the message quotes \<open>a\<close>. In the
  modulo variant the error is a syntax error under the minor version, also in the year
  form; a year that is no number is an error under the year, and a build version beyond
  64 bits is a range error.
\<close>

theorem parseVersion_names_rejected_part_witness:
  "parseVersion ''1.a.3'' = Inl (InvalidVersionPart ''a'')
   \<and> errorMessage (InvalidVersionPart ''a'')
       = Some (''invalid version part: '' @ [CHR 0x22] @ ''a'' @ [CHR 0x22] @ '' is not a number'')
   \<and> parseVersion_modulo ''1.a.3'' = Inl (InvalidField Minor (NumError ''a'' ErrSyntax))
   \<and> errorMessage (InvalidField Minor (NumError ''a'' ErrSyntax))
       = Some (''invalid minor version: strconv.Atoi: parsing '' @ [CHR 0x22] @ ''a'' @ [CHR 0x22]
               @ '': invalid syntax'')
   \<and> parseVersion_modulo ''2024.a.3'' = Inl (InvalidField Minor (NumError ''a'' ErrSyntax))
   \<and> parseVersion_modulo ''20ab.1.1'' = Inl (InvalidField Year (NumError ''ab'' ErrSyntax))
   \<and> parseVersion_modulo ''1.2.99999999999999999999''
       = Inl (InvalidField Build (NumError ''99999999999999999999'' ErrRange))
   \<and> parseVersion_modulo ''1.2'' = Inl (InvalidVersionFormat ''1.2'')
   \<and> (\<exists>out. parseVersion_modulo ''1.0.0'' = Inr out)
   \<and> parseVersion ''1.0.0'' = Inr ''1.0.0''
   \<and> rejected ''a'' \<and> \<not> rejected ''-5''"
proof -
  note claim = parseVersion_names_rejected_part
  note passes = claim [THEN conjunct1]
  note unchanged = claim [THEN conjunct2, THEN conjunct1]
  note counted = claim [THEN conjunct2, THEN conjunct2, THEN conjunct1]
  note named = claim [THEN conjunct2, THEN conjunct2, THEN conjunct2, THEN conjunct1]
  note succeeds =
    claim [THEN conjunct2, THEN conjunct2, THEN conjunct2, THEN conjunct2, THEN conjunct1]
  note accepted =
    claim [THEN conjunct2, THEN conjunct2, THEN conjunct2, THEN conjunct2, THEN conjunct2]
  have h1: "find rejected (Split ''1.a.3'') = Some ''a''" by (simp add: version_eval)
  have h2: "plain ''a''" by (simp add: plain_def)
  have h5: "find rejected (Split ''1.0.0'') = None" by (simp add: version_eval)
  from passes [THEN mp, OF h1] h2
  have p1: "parseVersion ''1.a.3'' = Inl (InvalidVersionPart ''a'')"
    and p2: "errorMessage (InvalidVersionPart ''a'')
       = Some (''invalid version part: '' @ [CHR 0x22] @ ''a'' @ [CHR 0x22] @ '' is not a number'')"
    by blast+
  from unchanged [THEN mp, OF h5] have p3: "parseVersion ''1.0.0'' = Inr ''1.0.0''" .
  have a: "Atoi ''a'' = Inl (NumError ''a'' ErrSyntax)"
    "Atoi ''ab'' = Inl (NumError ''ab'' ErrSyntax)"
    "Atoi ''99999999999999999999'' = Inl (NumError ''99999999999999999999'' ErrRange)"
    by (simp_all add: version_eval)
  have c1: "find (\<lambda>(f, t). rejected t) (atoiCalls (Split ''1.a.3'')) = Some (Minor, ''a'')"
    by (simp add: version_eval)
  from named [THEN mp, OF c1]
  obtain k1 where k1: "Atoi ''a'' = Inl (NumError ''a'' k1)"
      "parseVersion_modulo ''1.a.3'' = Inl (InvalidField Minor (NumError ''a'' k1))"
      "plain ''a'' \<longrightarrow> errorMessage (InvalidField Minor (NumError ''a'' k1))
              = Some (fieldText Minor @ ''strconv.Atoi: parsing '' @ [CHR 0x22] @ ''a'' @ [CHR 0x22]
                      @ '': '' @ causeText k1)"
    by blast
  from k1(1) a(1) have e1: "k1 = ErrSyntax" by simp
  from k1(2) e1 have m1: "parseVersion_modulo ''1.a.3'' = Inl (InvalidField Minor (NumError ''a'' ErrSyntax))"
    by simp
  from k1(3) h2 e1 have m1': "errorMessage (InvalidField Minor (NumError ''a'' ErrSyntax))
       = Some (''invalid minor version: strconv.Atoi: parsing '' @ [CHR 0x22] @ ''a'' @ [CHR 0x22]
               @ '': invalid syntax'')"
    by (simp add: fieldText_def causeText_def)
  have c2: "find (\<lambda>(f, t). rejected t) (atoiCalls (Split ''2024.a.3'')) = Some (Minor, ''a'')"
    by (simp add: version_eval)
  from named [THEN mp, OF c2]
  obtain k2 where k2: "Atoi ''a'' = Inl (NumError ''a'' k2)"
      "parseVersion_modulo ''2024.a.3'' = Inl (InvalidField Minor (NumError ''a'' k2))"
    by blast
  from k2 a(1) have m2: "parseVersion_modulo ''2024.a.3'' = Inl (InvalidField Minor (NumError ''a'' ErrSyntax))"
    by simp
  have c3: "find (\<lambda>(f, t). rejected t) (atoiCalls (Split ''20ab.1.1'')) = Some (Year, ''ab'')"
    by (simp add: version_eval)
  from named [THEN mp, OF c3]
  obtain k3 where k3: "Atoi ''ab'' = Inl (NumError ''ab'' k3)"
      "parseVersion_modulo ''20ab.1.1'' = Inl (InvalidField Year (NumError ''ab'' k3))"
    by blast
  from k3 a(2) have m3: "parseVersion_modulo ''20ab.1.1'' = Inl (InvalidField Year (NumError ''ab'' ErrSyntax))"
    by simp
  have c4: "find (\<lambda>(f, t). rejected t) (atoiCalls (Split ''1.2.99999999999999999999''))
            = Some (Build, ''99999999999999999999'')"
    by (simp add: version_eval)
  from named [THEN mp, OF c4]
  obtain k4 where k4: "Atoi ''99999999999999999999'' = Inl (NumError ''99999999999999999999'' k4)"
      "parseVersion_modulo ''1.2.99999999999999999999''
         = Inl (InvalidField Build (NumError ''99999999999999999999'' k4))"
    by blast
  from k4 a(3) have m4: "parseVersion_modulo ''1.2.99999999999999999999''
       = Inl (InvalidField Build (NumError ''99999999999999999999'' ErrRange))"
    by simp
  have l5: "length (Split ''1.2'') \<noteq> 3 \<and> length (Split ''1.2'') \<noteq> 4" by simp
  from counted [THEN mp, OF l5]
  have m5: "parseVersion_modulo ''1.2'' = Inl (InvalidVersionFormat ''1.2'')" .
  have c6: "(length (Split ''1.0.0'') = 3 \<or> length (Split ''1.0.0'') = 4)
     \<and> find (\<lambda>(f, t). rejected t) (atoiCalls (Split ''1.0.0'')) = None"
    by (simp add: version_eval)
  from succeeds [THEN mp, OF c6]
  have m6: "\<exists>out. parseVersion_modulo ''1.0.0'' = Inr out" .
  have h6: "\<not> signedDecimal ''a''"
    "signedDecimal ''-5'' \<and> - (2 ^ 63) \<le> decimalValue ''-5'' \<and> decimalValue ''-5'' < 2 ^ 63"
    by (simp_all add: signedDecimal_def decimalValue_def digitsValue_def isDigit_def digitVal_def)
  from accepted [of "''a''"] h6(1) have r1: "rejected ''a''" by blast
  from accepted [of "''-5''"] h6(2) have r2: "\<not> rejected ''-5''" by blast
  show ?thesis
    using p1 p2 m1 m1' m2 m3 m4 m5 m6 p3 r1 r2 by (intro conjI) assumption+
qed

text \<open>
  The claim as it stands fails on a signed part: \<open>-5\<close> is no non-negative integer,
  \<open>Atoi\<close> reads it as \<open>-5\<close>, and both variants accept \<open>1.-5.3\<close>. The modulo
  variant counts the parts first: \<open>1.a\<close> fails with \<open>InvalidVersionFormat\<close>. And in
  the year form it looks at the last two bytes of the first part only: \<open>ab12\<close> is no
  integer and \<open>ab12.1.1\<close> is accepted, and the error of \<open>20ab.1.1\<close> names \<open>ab\<close>,
  not the part.
\<close>

theorem parseVersion_accepts_signed_part:
  "Split ''1.-5.3'' = [''1'', ''-5'', ''3'']
   \<and> Atoi ''-5'' = Inr (- 5)
   \<and> parseVersion ''1.-5.3'' = Inr ''1.-5.3''
   \<and> parseVersion_modulo ''1.-5.3'' = Inr ''1.-5.3''
   \<and> parseVersion_modulo ''1.a'' = Inl (InvalidVersionFormat ''1.a'')
   \<and> Split ''ab12.1.1'' = [''ab12'', ''1'', ''1'']
   \<and> rejected ''ab12''
   \<and> parseVersion_modulo ''ab12.1.1'' = Inr ''12.1.1''
   \<and> parseVersion_modulo ''20ab.1.1'' = Inl (InvalidField Year (NumError ''ab'' ErrSyntax))"
  by (simp add: version_eval)

text \<open>
  Claim C2. In an input of three parts the modulo variant reads a first part of four
  bytes as a year and takes its last two bytes as the major component: for four digits
  that is the year modulo 100. A first part of any other length is parsed as it stands.
  The input \<open>2024.10.11\<close> gives \<open>24.10.11\<close>.
\<close>

theorem parseVersion_modulo_year_form:
  assumes "Split s = [p0, p1, p2]"
  shows "(length p0 = 4 \<and> Atoi (drop 2 p0) = Inr major \<and> Atoi p1 = Inr minor \<and> Atoi p2 = Inr build
            \<longrightarrow> parseVersion_modulo s = Inr (finishVersion major minor build))
       \<and> (length p0 = 4 \<and> list_all isDigit p0 \<and> Atoi p0 = Inr year \<and> Atoi p1 = Inr minor \<and> Atoi p2 = Inr build
            \<longrightarrow> parseVersion_modulo s = Inr (finishVersion (year mod 100) minor build))
       \<and> (length p0 = 4 \<and> Atoi (drop 2 p0) = Inl e
            \<longrightarrow> parseVersion_modulo s = Inl (InvalidField Year e))
       \<and> (length p0 \<noteq> 4 \<and> Atoi p0 = Inr major \<and> Atoi p1 = Inr minor \<and> Atoi p2 = Inr build
            \<longrightarrow> parseVersion_modulo s = Inr (finishVersion major minor build))
       \<and> (length p0 \<noteq> 4 \<and> Atoi p0 = Inl e
            \<longrightarrow> parseVersion_modulo s = Inl (InvalidField Major e))"
  using assms year_last_two_digits [of p0 year]
  by (simp add: parseVersion_modulo_def bindE_def atoiField_def)

theorem parseVersion_modulo_year_form_witness:
  "parseVersion_modulo ''2024.10.11'' = Inr ''24.10.11''
   \<and> parseVersion_modulo ''1.2.3'' = Inr ''1.2.3''
   \<and> parseVersion_modulo ''20ab.1.1'' = Inl (InvalidField Year (NumError ''ab'' ErrSyntax))
   \<and> parseVersion_modulo ''x.1.1'' = Inl (InvalidField Major (NumError ''x'' ErrSyntax))"
proof -
  have s1: "Split ''2024.10.11'' = [''2024'', ''10'', ''11'']" by simp
  have a1: "length ''2024'' = 4 \<and> list_all isDigit ''2024'' \<and> Atoi ''2024'' = Inr 2024
            \<and> Atoi ''10'' = Inr 10 \<and> Atoi ''11'' = Inr 11"
    by (simp add: version_eval)
  have f1: "finishVersion (2024 mod 100) 10 11 = ''24.10.11''" by (simp add: version_eval)
  have r1: "parseVersion_modulo ''2024.10.11'' = Inr ''24.10.11''"
    using parseVersion_modulo_year_form [OF s1, where year = 2024 and minor = 10 and build = 11]
      a1 f1
    by simp
  have s2: "Split ''1.2.3'' = [''1'', ''2'', ''3'']" by simp
  have a2: "length ''1'' \<noteq> 4 \<and> Atoi ''1'' = Inr 1 \<and> Atoi ''2'' = Inr 2 \<and> Atoi ''3'' = Inr 3"
    by (simp add: version_eval)
  have f2: "finishVersion 1 2 3 = ''1.2.3''" by (simp add: version_eval)
  have r2: "parseVersion_modulo ''1.2.3'' = Inr ''1.2.3''"
    using parseVersion_modulo_year_form [OF s2, where major = 1 and minor = 2 and build = 3]
      a2 f2
    by simp
  have s3: "Split ''20ab.1.1'' = [''20ab'', ''1'', ''1'']" by simp
  have a3: "length ''20ab'' = 4 \<and> Atoi (drop 2 ''20ab'') = Inl (NumError ''ab'' ErrSyntax)"
    by (simp add: version_eval)
  have r3: "parseVersion_modulo ''20ab.1.1'' = Inl (InvalidField Year (NumError ''ab'' ErrSyntax))"
    using parseVersion_modulo_year_form [OF s3, where e = "NumError ''ab'' ErrSyntax"] a3
    by simp
  have s4: "Split ''x.1.1'' = [''x'', ''1'', ''1'']" by simp
  have a4: "length ''x'' \<noteq> 4 \<and> Atoi ''x'' = Inl (NumError ''x'' ErrSyntax)"
    by (simp add: version_eval)
  have r4: "parseVersion_modulo ''x.1.1'' = Inl (InvalidField Major (NumError ''x'' ErrSyntax))"
    using parseVersion_modulo_year_form [OF s4, where e = "NumError ''x'' ErrSyntax"] a4
    by simp
  from r1 r2 r3 r4 show ?thesis by simp
qed




text \<open>
  Claim C4. The modulo variant fails with \<open>InvalidVersionFormat\<close> exactly when the
  number of parts is neither 3 nor 4, and the error then holds the input; \<open>1.2\<close> fails
  so.
\<close>

theorem parseVersion_modulo_format_error_iff:
  "((\<exists>m. parseVersion_modulo s = Inl (InvalidVersionFormat m))
      \<longleftrightarrow> length (Split s) \<noteq> 3 \<and> length (Split s) \<noteq> 4)
   \<and> (parseVersion_modulo s = Inl (InvalidVersionFormat m) \<longrightarrow> m = s)"
  by (auto simp: parseVersion_modulo_def bindE_def atoiField_def
      split: list.splits sum.splits if_splits)

theorem parseVersion_modulo_format_error_iff_witness:
  "length (Split ''1.2'') = 2
   \<and> parseVersion_modulo ''1.2'' = Inl (InvalidVersionFormat ''1.2'')
   \<and> \<not> (\<exists>m. parseVersion_modulo ''1.2.3'' = Inl (InvalidVersionFormat m))"
proof -
  have l: "length (Split ''1.2'') = 2" "length (Split ''1.2.3'') = 3" by simp_all
  obtain m where m: "parseVersion_modulo ''1.2'' = Inl (InvalidVersionFormat m)"
    using parseVersion_modulo_format_error_iff [of "''1.2''"] l by auto
  with parseVersion_modulo_format_error_iff [of "''1.2''" m] have "m = ''1.2''" by simp
  with m l parseVersion_modulo_format_error_iff [of "''1.2.3''"] show ?thesis by simp
qed

text \<open>
  Claim C6, as amended. In the pass-through variant an output is its input, so
  normalising it again gives the same text. In the modulo variant a text
  \<open>major.minor.patch\<close> is a fixed point when its three components are written the way
  \<open>%d\<close> prints them (no plus sign, no leading zero), the first component is not four
  bytes long, \<open>major\<close> fits 64 bits, and \<open>minor\<close> and \<open>patch\<close> are below 256 and
  65536 in absolute value.
\<close>

theorem parseVersion_fixed_points:
  "(parseVersion s = Inr t \<longrightarrow> t = s \<and> parseVersion t = Inr t)
   \<and> (- (2 ^ 63) \<le> major \<and> major < 2 ^ 63 \<and> length (Itoa major) \<noteq> 4
        \<and> \<bar>minor\<bar> < 256 \<and> \<bar>build\<bar> < 65536 \<longrightarrow>
      parseVersion_modulo (Itoa major @ ''.'' @ Itoa minor @ ''.'' @ Itoa build)
        = Inr (Itoa major @ ''.'' @ Itoa minor @ ''.'' @ Itoa build))"
proof -
  have "t = s \<and> parseVersion t = Inr t" if "parseVersion s = Inr t"
  proof -
    from that obtain ps where ps: "numericParts (Split s) = Inr ps" and t: "t = Join ps"
      by (auto simp: parseVersion_def split: sum.splits)
    from numericParts_Inr [OF ps] t have "t = s" by (simp add: Join_Split)
    with that show ?thesis by simp
  qed
  then show ?thesis using modulo_fixed_point [of major minor build] by simp
qed

theorem parseVersion_fixed_points_witness:
  "parseVersion ''1.2.3'' = Inr ''1.2.3''
   \<and> parseVersion_modulo ''1.2.3'' = Inr ''1.2.3''
   \<and> parseVersion_modulo ''12024.255.65535'' = Inr ''12024.255.65535''"
proof -
  have p: "parseVersion ''1.2.3'' = Inr ''1.2.3''" by (simp add: version_eval)
  have i1: "Itoa 1 @ ''.'' @ Itoa 2 @ ''.'' @ Itoa 3 = ''1.2.3''" "length (Itoa 1) \<noteq> 4"
    by (simp_all add: version_eval)
  have i2: "Itoa 12024 @ ''.'' @ Itoa 255 @ ''.'' @ Itoa 65535 = ''12024.255.65535''"
    "length (Itoa 12024) \<noteq> 4"
    by (simp_all add: version_eval)
  have "parseVersion_modulo ''1.2.3'' = Inr ''1.2.3''"
    using parseVersion_fixed_points [of "''1.2.3''" "''1.2.3''" 1 2 3] i1 by simp
  moreover have "parseVersion_modulo ''12024.255.65535'' = Inr ''12024.255.65535''"
    using parseVersion_fixed_points [of "''1.2.3''" "''1.2.3''" 12024 255 65535] i2 by simp
  moreover have "parseVersion ''1.2.3'' = Inr ''1.2.3''"
    using parseVersion_fixed_points [of "''1.2.3''" "''1.2.3''" 1 2 3] p by simp
  ultimately show ?thesis by simp
qed

text \<open>
  The claim as it stands fails on the year form: the three components of
  \<open>2024.10.11\<close> are integers, 10 is below 256 and 11 below 65536, and the modulo
  variant answers \<open>24.10.11\<close>.
\<close>

theorem parseVersion_modulo_year_not_fixed:
  "Split ''2024.10.11'' = [''2024'', ''10'', ''11'']
   \<and> Atoi ''2024'' = Inr 2024 \<and> Atoi ''10'' = Inr 10 \<and> Atoi ''11'' = Inr 11
   \<and> parseVersion_modulo ''2024.10.11'' = Inr ''24.10.11''
   \<and> ''24.10.11'' \<noteq> ''2024.10.11''"
  by (simp add: version_eval)

section \<open>The claims about install locations\<close>

text \<open>
  Claim C5. For every path and every table, \<open>resolveInstallLocation\<close> answers with the
  identifier the table holds for the path with its separators normalised, and with that
  normalised path itself where the table holds none: only the whole path is looked up.
  For a home directory \<open>getStandardDirectories\<close> returns a table, whose keys and
  identifiers are those of its map literal. Given the Desktop directory of that home
  directory, as \<open>filepath.Join\<close> builds it, with no slash in it and listed in the
  literal as \<open>DesktopFolder\<close> only, \<open>resolveInstallLocation\<close> answers
  \<open>DesktopFolder\<close> on that table, in whatever order the entries of the literal are
  stored. That is so in particular where the home directory has no slash in it and
  \<open>filepath.Join\<close> only puts backslashes between it and the names of the table.
\<close>

theorem resolveInstallLocation_exact_match:
  "(dirs (NormalizePath raw) = Some ident \<longrightarrow> resolveInstallLocation raw dirs = ident)
   \<and> (dirs (NormalizePath raw) = None \<longrightarrow> resolveInstallLocation raw dirs = NormalizePath raw)
   \<and> (\<exists>table. getStandardDirectories join (Inr homeDir) = Inr table
         \<and> dom table = fst ` set (standardEntries join homeDir)
         \<and> (\<forall>k v. table k = Some v \<longrightarrow> (k, v) \<in> set (standardEntries join homeDir))
         \<and> (CHR ''/'' \<notin> set (join [homeDir, ''Desktop''])
              \<and> (\<forall>(k, v) \<in> set (standardEntries join homeDir).
                    k = join [homeDir, ''Desktop''] \<longrightarrow> v = ''DesktopFolder'')
            \<longrightarrow> resolveInstallLocation (join [homeDir, ''Desktop'']) table = ''DesktopFolder'')
         \<and> ((\<forall>ds \<in> set userDirs. join (homeDir # ds) = joinClean (homeDir # ds))
              \<and> CHR ''/'' \<notin> set homeDir
            \<longrightarrow> resolveInstallLocation (join [homeDir, ''Desktop'']) table = ''DesktopFolder''))
   \<and> (set es = set (standardEntries join homeDir)
        \<and> CHR ''/'' \<notin> set (join [homeDir, ''Desktop''])
        \<and> (\<forall>(k, v) \<in> set (standardEntries join homeDir).
              k = join [homeDir, ''Desktop''] \<longrightarrow> v = ''DesktopFolder'')
      \<longrightarrow> resolveInstallLocation (join [homeDir, ''Desktop'']) (map_of es) = ''DesktopFolder'')"
proof -
  let ?entries = "standardEntries join homeDir"
  let ?table = "map_of (rev ?entries)"
  have t: "getStandardDirectories join (Inr homeDir) = Inr ?table"
    by (simp add: getStandardDirectories_def)
  have d: "dom ?table = fst ` set ?entries"
    by (simp add: dom_map_of_conv_image_fst)
  have g: "\<forall>k v. ?table k = Some v \<longrightarrow> (k, v) \<in> set ?entries"
    using map_of_SomeD by fastforce
  have a: "resolveInstallLocation (join [homeDir, ''Desktop'']) ?table = ''DesktopFolder''"
    if "CHR ''/'' \<notin> set (join [homeDir, ''Desktop''])"
      and "\<forall>(k, v) \<in> set ?entries. k = join [homeDir, ''Desktop''] \<longrightarrow> v = ''DesktopFolder''"
    using desktop_any_order [OF _ that, of "rev ?entries"] by simp
  have b: "resolveInstallLocation (join [homeDir, ''Desktop'']) ?table = ''DesktopFolder''"
    if "\<forall>ds \<in> set userDirs. join (homeDir # ds) = joinClean (homeDir # ds)"
      and "CHR ''/'' \<notin> set homeDir"
    using desktop_joinClean [OF that] .
  have tab: "\<exists>table. getStandardDirectories join (Inr homeDir) = Inr table
         \<and> dom table = fst ` set ?entries
         \<and> (\<forall>k v. table k = Some v \<longrightarrow> (k, v) \<in> set ?entries)
         \<and> (CHR ''/'' \<notin> set (join [homeDir, ''Desktop''])
              \<and> (\<forall>(k, v) \<in> set ?entries.
                    k = join [homeDir, ''Desktop''] \<longrightarrow> v = ''DesktopFolder'')
            \<longrightarrow> resolveInstallLocation (join [homeDir, ''Desktop'']) table = ''DesktopFolder'')
         \<and> ((\<forall>ds \<in> set userDirs. join (homeDir # ds) = joinClean (homeDir # ds))
              \<and> CHR ''/'' \<notin> set homeDir
            \<longrightarrow> resolveInstallLocation (join [homeDir, ''Desktop'']) table = ''DesktopFolder'')"
  proof (rule exI [of _ ?table], intro conjI impI)
    show "getStandardDirectories join (Inr homeDir) = Inr ?table" by (rule t)
    show "dom ?table = fst ` set ?entries" by (rule d)
    show "\<forall>k v. ?table k = Some v \<longrightarrow> (k, v) \<in> set ?entries" by (rule g)
  next
    assume "CHR ''/'' \<notin> set (join [homeDir, ''Desktop''])
              \<and> (\<forall>(k, v) \<in> set ?entries.
                    k = join [homeDir, ''Desktop''] \<longrightarrow> v = ''DesktopFolder'')"
    then show "resolveInstallLocation (join [homeDir, ''Desktop'']) ?table = ''DesktopFolder''"
      using a by (elim conjE)
  next
    assume "(\<forall>ds \<in> set userDirs. join (homeDir # ds) = joinClean (homeDir # ds))
              \<and> CHR ''/'' \<notin> set homeDir"
    then show "resolveInstallLocation (join [homeDir, ''Desktop'']) ?table = ''DesktopFolder''"
      using b by (elim conjE)
  qed
  have l1: "dirs (NormalizePath raw) = Some ident \<longrightarrow> resolveInstallLocation raw dirs = ident"
    by (simp add: resolveInstallLocation_def)
  have l2: "dirs (NormalizePath raw) = None \<longrightarrow> resolveInstallLocation raw dirs = NormalizePath raw"
    by (simp add: resolveInstallLocation_def)
  have ord: "set es = set ?entries
        \<and> CHR ''/'' \<notin> set (join [homeDir, ''Desktop''])
        \<and> (\<forall>(k, v) \<in> set ?entries.
              k = join [homeDir, ''Desktop''] \<longrightarrow> v = ''DesktopFolder'')
      \<longrightarrow> resolveInstallLocation (join [homeDir, ''Desktop'']) (map_of es) = ''DesktopFolder''"
  proof (intro impI, elim conjE)
    assume "set es = set ?entries" "CHR ''/'' \<notin> set (join [homeDir, ''Desktop''])"
      "\<forall>(k, v) \<in> set ?entries. k = join [homeDir, ''Desktop''] \<longrightarrow> v = ''DesktopFolder''"
    then show "resolveInstallLocation (join [homeDir, ''Desktop'']) (map_of es) = ''DesktopFolder''"
      by (rule desktop_any_order)
  qed
  show ?thesis by (rule conjI [OF l1 conjI [OF l2 conjI [OF tab ord]]])
qed

text \<open>
  With the home directory \<open>C:\Users\me\<close>: the table \<open>getStandardDirectories\<close>
  returns, the Desktop directory, a path that is a key of the table, and a path below
  such a key, which stays as it is.
\<close>

theorem resolveInstallLocation_exact_match_witness:
  "getStandardDirectories joinClean (Inr sampleHome) = Inr sampleDirs
   \<and> sampleDirs (sampleHome @ [backslash] @ ''Desktop'') = Some ''DesktopFolder''
   \<and> resolveInstallLocation (sampleHome @ [backslash] @ ''Desktop'') sampleDirs = ''DesktopFolder''
   \<and> resolveInstallLocation (joinClean [sampleHome, ''Desktop''])
         (map_of (standardEntries joinClean sampleHome)) = ''DesktopFolder''
   \<and> resolveInstallLocation ''C:/Program Files'' sampleDirs = ''ProgramFilesFolder''
   \<and> resolveInstallLocation ''C:/Program Files/Foo'' sampleDirs
       = ''C:'' @ [backslash] @ ''Program Files'' @ [backslash] @ ''Foo''"
proof -
  note inst = resolveInstallLocation_exact_match [where join = joinClean and homeDir = sampleHome]
  from inst [THEN conjunct2, THEN conjunct2, THEN conjunct1]
  obtain table where tb:
      "getStandardDirectories joinClean (Inr sampleHome) = Inr table
       \<and> dom table = fst ` set (standardEntries joinClean sampleHome)
       \<and> (\<forall>k v. table k = Some v \<longrightarrow> (k, v) \<in> set (standardEntries joinClean sampleHome))
       \<and> (CHR ''/'' \<notin> set (joinClean [sampleHome, ''Desktop''])
            \<and> (\<forall>(k, v) \<in> set (standardEntries joinClean sampleHome).
                  k = joinClean [sampleHome, ''Desktop''] \<longrightarrow> v = ''DesktopFolder'')
          \<longrightarrow> resolveInstallLocation (joinClean [sampleHome, ''Desktop'']) table = ''DesktopFolder'')
       \<and> ((\<forall>ds \<in> set userDirs. joinClean (sampleHome # ds) = joinClean (sampleHome # ds))
            \<and> CHR ''/'' \<notin> set sampleHome
          \<longrightarrow> resolveInstallLocation (joinClean [sampleHome, ''Desktop'']) table = ''DesktopFolder'')"
    ..
  note table = tb [THEN conjunct1]
    tb [THEN conjunct2, THEN conjunct2, THEN conjunct2, THEN conjunct1]
    tb [THEN conjunct2, THEN conjunct2, THEN conjunct2, THEN conjunct2]
  from table(1) have t: "getStandardDirectories joinClean (Inr sampleHome) = Inr sampleDirs"
    by (simp add: sampleDirs_def)
  with table(1) have ts: "table = sampleDirs" by simp
  have j: "joinClean [sampleHome, ''Desktop''] = sampleHome @ [backslash] @ ''Desktop''" by simp
  have ns: "CHR ''/'' \<notin> set (joinClean [sampleHome, ''Desktop''])"
    by (simp add: sampleHome_def backslash_def)
  have un: "\<forall>(k, v) \<in> set (standardEntries joinClean sampleHome).
              k = joinClean [sampleHome, ''Desktop''] \<longrightarrow> v = ''DesktopFolder''"
    by (simp add: standardEntries_def sampleHome_def backslash_def)
  have nh: "CHR ''/'' \<notin> set sampleHome"
    by (simp add: sampleHome_def backslash_def)
  from table(2) ns un ts j
  have r1: "resolveInstallLocation (sampleHome @ [backslash] @ ''Desktop'') sampleDirs = ''DesktopFolder''"
    by simp
  from table(3) nh ts j
  have r1': "resolveInstallLocation (sampleHome @ [backslash] @ ''Desktop'') sampleDirs = ''DesktopFolder''"
    by simp
  have k0: "sampleDirs (sampleHome @ [backslash] @ ''Desktop'') = Some ''DesktopFolder''"
    by (simp add: sampleDirs_eq standardEntries_def sampleHome_def backslash_def)
  have k1: "sampleDirs (NormalizePath ''C:/Program Files'') = Some ''ProgramFilesFolder''"
    by (simp add: sampleDirs_eq standardEntries_def sampleHome_def path_eval)
  have k2: "sampleDirs (NormalizePath ''C:/Program Files/Foo'') = None"
    by (simp add: sampleDirs_eq standardEntries_def sampleHome_def path_eval)
  have n2: "NormalizePath ''C:/Program Files/Foo''
      = ''C:'' @ [backslash] @ ''Program Files'' @ [backslash] @ ''Foo''"
    by (simp add: path_eval)
  have r2: "resolveInstallLocation (joinClean [sampleHome, ''Desktop''])
         (map_of (standardEntries joinClean sampleHome)) = ''DesktopFolder''"
    using resolveInstallLocation_exact_match
      [where join = joinClean and homeDir = sampleHome
         and es = "standardEntries joinClean sampleHome"] ns un
    by blast
  have r3: "resolveInstallLocation ''C:/Program Files'' sampleDirs = ''ProgramFilesFolder''"
    using resolveInstallLocation_exact_match
      [where raw = "''C:/Program Files''" and dirs = sampleDirs
         and ident = "''ProgramFilesFolder''"] k1
    by blast
  have r4: "resolveInstallLocation ''C:/Program Files/Foo'' sampleDirs
       = ''C:'' @ [backslash] @ ''Program Files'' @ [backslash] @ ''Foo''"
    using resolveInstallLocation_exact_match
      [where raw = "''C:/Program Files/Foo''" and dirs = sampleDirs] k2 n2
    by simp
  from t k0 r1 r2 r3 r4 show ?thesis by blast
qed

text \<open>
  Claim C7, as amended. Both variants of \<open>normalizeInstallLocation\<close> replace every
  slash with a backslash. The trimming variant then removes every trailing backslash, so
  its result ends in none. The other variant appends one backslash where the path ends
  in none and leaves a path that ends in backslashes as it is: its result ends in a
  backslash, and in as many as the path with its slashes replaced, but at least one.
\<close>

theorem normalizeInstallLocation_trailing_policy:
  "CHR ''/'' \<notin> set (normalizeInstallLocation_trim s)
   \<and> ReplaceAll s CHR ''/'' backslash
       = normalizeInstallLocation_trim s
         @ replicate (trailingBackslashes (ReplaceAll s CHR ''/'' backslash)) backslash
   \<and> \<not> HasSuffix (normalizeInstallLocation_trim s) [backslash]
   \<and> CHR ''/'' \<notin> set (normalizeInstallLocation s)
   \<and> normalizeInstallLocation s
       = ReplaceAll s CHR ''/'' backslash
         @ (if trailingBackslashes (ReplaceAll s CHR ''/'' backslash) = 0 then [backslash] else [])
   \<and> HasSuffix (normalizeInstallLocation s) [backslash]
   \<and> trailingBackslashes (normalizeInstallLocation s)
       = max 1 (trailingBackslashes (ReplaceAll s CHR ''/'' backslash))"
proof -
  have "ReplaceAll s CHR ''/'' backslash
       = normalizeInstallLocation_trim s
         @ replicate (trailingBackslashes (ReplaceAll s CHR ''/'' backslash)) backslash"
    using TrimRight_decompose [of "ReplaceAll s CHR ''/'' backslash" backslash]
    by (simp add: normalizeInstallLocation_trim_def trailingBackslashes_def)
  moreover have "\<not> HasSuffix (normalizeInstallLocation_trim s) [backslash]"
    by (simp add: normalizeInstallLocation_trim_def TrimRight_no_suffix)
  moreover have "normalizeInstallLocation s
       = ReplaceAll s CHR ''/'' backslash
         @ (if trailingBackslashes (ReplaceAll s CHR ''/'' backslash) = 0 then [backslash] else [])"
    by (simp add: normalizeInstallLocation_def Let_def trailing_zero_iff)
  ultimately show ?thesis
    using normalizeInstallLocation_trim_no_slash normalizeInstallLocation_no_slash
      normalizeInstallLocation_suffix normalizeInstallLocation_trailing
    by blast
qed

theorem normalizeInstallLocation_trailing_policy_witness:
  "normalizeInstallLocation_trim ''C:/Program Files/Foo/''
     = ''C:'' @ [backslash] @ ''Program Files'' @ [backslash] @ ''Foo''
   \<and> \<not> HasSuffix (normalizeInstallLocation_trim ''C:/Program Files/Foo/'') [backslash]
   \<and> normalizeInstallLocation ''C:/Program Files/Foo''
     = ''C:'' @ [backslash] @ ''Program Files'' @ [backslash] @ ''Foo'' @ [backslash]
   \<and> trailingBackslashes (normalizeInstallLocation ''C:/Program Files/Foo'') = 1"
proof -
  note trim = normalizeInstallLocation_trailing_policy [of "''C:/Program Files/Foo/''"]
  note app = normalizeInstallLocation_trailing_policy [of "''C:/Program Files/Foo''"]
  have t: "normalizeInstallLocation_trim ''C:/Program Files/Foo/''
     = ''C:'' @ [backslash] @ ''Program Files'' @ [backslash] @ ''Foo''"
    by (simp add: path_eval)
  have r: "ReplaceAll ''C:/Program Files/Foo'' CHR ''/'' backslash
     = ''C:'' @ [backslash] @ ''Program Files'' @ [backslash] @ ''Foo''"
    "trailingBackslashes (ReplaceAll ''C:/Program Files/Foo'' CHR ''/'' backslash) = 0"
    by (simp_all add: path_eval)
  from trim have c1: "\<not> HasSuffix (normalizeInstallLocation_trim ''C:/Program Files/Foo/'') [backslash]"
    by blast
  from app have "normalizeInstallLocation ''C:/Program Files/Foo''
       = ReplaceAll ''C:/Program Files/Foo'' CHR ''/'' backslash
         @ (if trailingBackslashes (ReplaceAll ''C:/Program Files/Foo'' CHR ''/'' backslash) = 0
            then [backslash] else [])"
    by blast
  with r have c2: "normalizeInstallLocation ''C:/Program Files/Foo''
     = ''C:'' @ [backslash] @ ''Program Files'' @ [backslash] @ ''Foo'' @ [backslash]"
    by simp
  from app have "trailingBackslashes (normalizeInstallLocation ''C:/Program Files/Foo'')
       = max 1 (trailingBackslashes (ReplaceAll ''C:/Program Files/Foo'' CHR ''/'' backslash))"
    by blast
  with r have c3: "trailingBackslashes (normalizeInstallLocation ''C:/Program Files/Foo'') = 1"
    by simp
  from t c1 c2 c3 show ?thesis by blast
qed

text \<open>
  The claim as it stands fails for the variant that appends: a path that ends in two
  separators keeps both.
\<close>

theorem normalizeInstallLocation_keeps_two_backslashes:
  "normalizeInstallLocation ''C:/foo//'' = ''C:'' @ [backslash] @ ''foo'' @ [backslash, backslash]
   \<and> trailingBackslashes (normalizeInstallLocation ''C:/foo//'') = 2"
  by (simp add: path_eval)

text \<open>
  Claim C8. \<open>resolveInstallLocation\<close> has no error to return: whatever the path, the
  empty one too, its result is the identifier the table holds for the normalised path, or
  that path itself. A path that matches no key comes back normalised and otherwise as it
  was: of the same length, with a backslash where there was a slash and every other byte
  in its place.
\<close>

theorem resolveInstallLocation_total_passthrough:
  "(resolveInstallLocation raw dirs = NormalizePath raw
      \<or> dirs (NormalizePath raw) = Some (resolveInstallLocation raw dirs))
   \<and> (NormalizePath raw \<notin> dom dirs \<longrightarrow> resolveInstallLocation raw dirs = NormalizePath raw)
   \<and> length (NormalizePath raw) = length raw
   \<and> (\<forall>i < length raw. NormalizePath raw ! i
          = (if raw ! i = CHR ''/'' then backslash else raw ! i))
   \<and> NormalizePath [] = []"
  by (auto simp: resolveInstallLocation_def Let_def NormalizePath_map split: option.splits)

text \<open>The empty path, and a path that names no directory.\<close>

theorem resolveInstallLocation_total_passthrough_witness:
  "resolveInstallLocation [] sampleDirs = []
   \<and> resolveInstallLocation ''??/:'' sampleDirs = ''??'' @ [backslash] @ '':''"
proof -
  have d0: "NormalizePath [] \<notin> dom sampleDirs"
    by (simp add: dom_def sampleDirs_eq standardEntries_def sampleHome_def path_eval)
  have d1: "NormalizePath ''??/:'' \<notin> dom sampleDirs"
    by (simp add: dom_def sampleDirs_eq standardEntries_def sampleHome_def path_eval)
  have n: "NormalizePath [] = []" "NormalizePath ''??/:'' = ''??'' @ [backslash] @ '':''"
    by (simp_all add: path_eval)
  show ?thesis
    using resolveInstallLocation_total_passthrough [of "[]" sampleDirs]
      resolveInstallLocation_total_passthrough [of "''??/:''" sampleDirs] d0 d1 n
    by simp
qed

text \<open>
  Claim C9. Both variants of \<open>normalizeInstallLocation\<close> are idempotent.
\<close>

theorem normalizeInstallLocation_idempotent:
  "normalizeInstallLocation (normalizeInstallLocation s) = normalizeInstallLocation s
   \<and> normalizeInstallLocation_trim (normalizeInstallLocation_trim s) = normalizeInstallLocation_trim s"
proof
  have "ReplaceAll (normalizeInstallLocation s) CHR ''/'' backslash = normalizeInstallLocation s"
    by (rule ReplaceAll_absent) (rule normalizeInstallLocation_no_slash)
  then show "normalizeInstallLocation (normalizeInstallLocation s) = normalizeInstallLocation s"
    using normalizeInstallLocation_suffix [of s]
    by (simp add: normalizeInstallLocation_def [of "normalizeInstallLocation s"])
next
  have "ReplaceAll (normalizeInstallLocation_trim s) CHR ''/'' backslash = normalizeInstallLocation_trim s"
    by (rule ReplaceAll_absent) (rule normalizeInstallLocation_trim_no_slash)
  then show "normalizeInstallLocation_trim (normalizeInstallLocation_trim s) = normalizeInstallLocation_trim s"
    by (simp add: normalizeInstallLocation_trim_def [of "normalizeInstallLocation_trim s"])
      (simp add: normalizeInstallLocation_trim_def TrimRight_idem)
qed

theorem normalizeInstallLocation_idempotent_witness:
  "normalizeInstallLocation (''C:'' @ [backslash] @ ''foo'' @ [backslash])
     = ''C:'' @ [backslash] @ ''foo'' @ [backslash]
   \<and> normalizeInstallLocation_trim (''C:'' @ [backslash] @ ''foo'') = ''C:'' @ [backslash] @ ''foo''"
proof -
  have e: "normalizeInstallLocation ''C:/foo'' = ''C:'' @ [backslash] @ ''foo'' @ [backslash]"
    "normalizeInstallLocation_trim ''C:/foo/'' = ''C:'' @ [backslash] @ ''foo''"
    by (simp_all add: path_eval)
  show ?thesis
    using normalizeInstallLocation_idempotent [of "''C:/foo''"]
      normalizeInstallLocation_idempotent [of "''C:/foo/''"]
    by (simp only: e)
qed

section \<open>The claim about preinstall scripts\<close>

text \<open>
  Claim C10. \<open>getPreinstallScripts\<close> answers with the names of the regular files of the
  scripts directory whose lowercased name starts with \<open>preinstall\<close> and ends with
  \<open>.ps1\<close>, each as often as the directory lists it, in ascending order.
  \<open>includePreinstallScripts\<close> writes to \<open>tools/chocolateyBeforeModify.ps1\<close>, for each
  of these names in that order, the line \<open># Contents of <name>\<close>, the contents of the
  script and a newline; where there is no such script it writes nothing.
\<close>

theorem preinstall_scripts_sorted_and_bundled:
  "(getPreinstallScripts ToLower p = Inr names \<longrightarrow>
      sorted names
      \<and> (scriptsNotExist p \<longrightarrow> names = [])
      \<and> (\<not> scriptsNotExist p \<longrightarrow>
           (\<exists>entries. readDirScripts p = Inr entries
              \<and> mset names = mset (map Name (filter
                    (\<lambda>e. IsRegular e \<and> HasPrefix (ToLower (Name e)) ''preinstall''
                           \<and> HasSuffix (ToLower (Name e)) ''.ps1'') entries)))))
   \<and> (getPreinstallScripts ToLower p = Inr names \<and> names \<noteq> []
        \<and> (\<forall>n \<in> set names. readScript p n = Inr (content n))
        \<and> mkdirTools p = None \<and> writeBeforeModify p = None \<longrightarrow>
      includePreinstallScripts ToLower p
        = Inr (p\<lparr>beforeModify := Some (concat (map
             (\<lambda>n. ''# Contents of '' @ n @ [CHR 0x0A] @ content n @ [CHR 0x0A]) names))\<rparr>))
   \<and> (getPreinstallScripts ToLower p = Inr [] \<longrightarrow> includePreinstallScripts ToLower p = Inr p)"
proof -
  have sel: "isPreinstall ToLower = (\<lambda>e. IsRegular e \<and> HasPrefix (ToLower (Name e)) ''preinstall''
                           \<and> HasSuffix (ToLower (Name e)) ''.ps1'')"
    by (rule ext) (simp add: isPreinstall_def)
  have a: "sorted names
      \<and> (scriptsNotExist p \<longrightarrow> names = [])
      \<and> (\<not> scriptsNotExist p \<longrightarrow>
           (\<exists>entries. readDirScripts p = Inr entries
              \<and> mset names = mset (map Name (filter
                    (\<lambda>e. IsRegular e \<and> HasPrefix (ToLower (Name e)) ''preinstall''
                           \<and> HasSuffix (ToLower (Name e)) ''.ps1'') entries))))"
    if "getPreinstallScripts ToLower p = Inr names"
    using that by (auto simp: getPreinstallScripts_def sel split: if_splits sum.splits)
  have b: "includePreinstallScripts ToLower p
        = Inr (p\<lparr>beforeModify := Some (concat (map
             (\<lambda>n. ''# Contents of '' @ n @ [CHR 0x0A] @ content n @ [CHR 0x0A]) names))\<rparr>)"
    if "getPreinstallScripts ToLower p = Inr names" "names \<noteq> []"
       "\<forall>n \<in> set names. readScript p n = Inr (content n)"
       "mkdirTools p = None" "writeBeforeModify p = None"
    using that combineScripts_all_read [OF that(3), of "[]"]
    by (simp add: includePreinstallScripts_def)
  have c: "includePreinstallScripts ToLower p = Inr p" if "getPreinstallScripts ToLower p = Inr []"
    using that by (simp add: includePreinstallScripts_def)
  from a b c show ?thesis by blast
qed

text \<open>
  The sample project: of its five entries the two preinstall scripts are chosen, the one
  with the capital letter first.
\<close>

theorem preinstall_scripts_sorted_and_bundled_witness:
  "getPreinstallScripts lowerASCII sampleProject = Inr [''Preinstall1.PS1'', ''preinstall2.ps1'']
   \<and> sorted [''Preinstall1.PS1'', ''preinstall2.ps1'']
   \<and> includePreinstallScripts lowerASCII sampleProject
       = Inr (sampleProject\<lparr>beforeModify := Some
           (''# Contents of Preinstall1.PS1'' @ [CHR 0x0A] @ ''Write-Host 1'' @ [CHR 0x0A]
            @ ''# Contents of preinstall2.ps1'' @ [CHR 0x0A] @ ''Write-Host 2'' @ [CHR 0x0A])\<rparr>)"
proof -
  have g: "getPreinstallScripts lowerASCII sampleProject
           = Inr [''Preinstall1.PS1'', ''preinstall2.ps1'']"
    by (simp add: getPreinstallScripts_def sampleProject_def isPreinstall_def lowerASCII_def
        HasPrefix_def HasSuffix_def)
  have ne: "[''Preinstall1.PS1'', ''preinstall2.ps1''] \<noteq> []" by simp
  have rd: "\<forall>n \<in> set [''Preinstall1.PS1'', ''preinstall2.ps1''].
              readScript sampleProject n = Inr (sampleContent n)"
    by (simp add: sampleProject_def)
  have ok: "mkdirTools sampleProject = None" "writeBeforeModify sampleProject = None"
    by (simp_all add: sampleProject_def)
  have cc: "concat (map (\<lambda>n. ''# Contents of '' @ n @ [CHR 0x0A] @ sampleContent n @ [CHR 0x0A])
              [''Preinstall1.PS1'', ''preinstall2.ps1''])
        = ''# Contents of Preinstall1.PS1'' @ [CHR 0x0A] @ ''Write-Host 1'' @ [CHR 0x0A]
            @ ''# Contents of preinstall2.ps1'' @ [CHR 0x0A] @ ''Write-Host 2'' @ [CHR 0x0A]"
    by (simp add: sampleContent_def)
  note inst = preinstall_scripts_sorted_and_bundled
    [where ToLower = lowerASCII and p = sampleProject
       and names = "[''Preinstall1.PS1'', ''preinstall2.ps1'']" and content = sampleContent]
  from inst g have "sorted [''Preinstall1.PS1'', ''preinstall2.ps1'']" by blast
  moreover from inst g ne rd ok have "includePreinstallScripts lowerASCII sampleProject
       = Inr (sampleProject\<lparr>beforeModify := Some
           (concat (map (\<lambda>n. ''# Contents of '' @ n @ [CHR 0x0A] @ sampleContent n @ [CHR 0x0A])
              [''Preinstall1.PS1'', ''preinstall2.ps1'']))\<rparr>)"
    by blast
  ultimately show ?thesis using g cc by simp
qed

end
